theory Spec2Isabelle
  imports Complex_Main
begin

section \<open>JavaScript values\<close>

text \<open>
  The helpers of \<^verbatim>\<open>src/src/App.js\<close> (lines 83--199) work on the rows of a query
  result: JSON objects whose fields hold numbers, strings, booleans or null.

  A number is a binary64 value. A finite one is represented by the rational it
  denotes; the three non-finite values are constructors of their own. The rounding
  of a decimal literal to the nearest binary64 value is not part of the model (the
  numbers of the statements below are integers and short decimals, which binary64
  holds exactly), but its overflow to an infinity is, since \<^verbatim>\<open>toNumber\<close> tests for it.
  Negative zero is not told apart from zero.

  A string is a sequence of code units, here the code units below 256; the regular
  expressions of the source only ever name ASCII characters, and their classes
  \<^verbatim>\<open>\d\<close> and \<^verbatim>\<open>[A-Za-z]\<close> hold ASCII characters only.
\<close>

datatype jsnum = Fin rat | PosInf | NegInf | NaN

datatype jsval = JUndefined | JNull | JBool bool | JNum jsnum | JStr string

text \<open>\<^verbatim>\<open>Number.isFinite\<close> on a number.\<close>

fun isFinite :: "jsnum \<Rightarrow> bool" where
  "isFinite (Fin q) = True"
| "isFinite PosInf = False"
| "isFinite NegInf = False"
| "isFinite NaN = False"

subsection \<open>Character classes of the regular expressions\<close>

text \<open>\<^verbatim>\<open>\d\<close>: the ten ASCII digits.\<close>

definition isDigit :: "char \<Rightarrow> bool" where
  "isDigit c \<longleftrightarrow> c \<in> set ''0123456789''"

text \<open>\<^verbatim>\<open>[A-Za-z]\<close>.\<close>

definition isAlpha :: "char \<Rightarrow> bool" where
  "isAlpha c \<longleftrightarrow> c \<in> set ''ABCDEFGHIJKLMNOPQRSTUVWXYZabcdefghijklmnopqrstuvwxyz''"

text \<open>
  \<^verbatim>\<open>\s\<close>, which is also what \<^verbatim>\<open>trim\<close> removes: white space and line terminators.
  Below 256 these are tab, line feed, vertical tab, form feed, carriage return, space
  and the no-break space.
\<close>

definition isSpace :: "char \<Rightarrow> bool" where
  "isSpace c \<longleftrightarrow> c \<in> set [CHR 0x09, CHR 0x0A, CHR 0x0B, CHR 0x0C, CHR 0x0D, CHR 0x20, CHR 0xA0]"

text \<open>\<^verbatim>\<open>[^\d.,-]\<close> is the complement of this class.\<close>

definition isNumChar :: "char \<Rightarrow> bool" where
  "isNumChar c \<longleftrightarrow> isDigit c \<or> c = CHR ''.'' \<or> c = CHR '','' \<or> c = CHR ''-''"

text \<open>\<^verbatim>\<open>toLowerCase\<close> on ASCII letters; other characters of the strings it is applied
  to (month words matched by \<^verbatim>\<open>[A-Za-z]+\<close>, column names compared with ASCII keywords
  under the \<^verbatim>\<open>i\<close> flag) are left alone.\<close>

definition lowerChar :: "char \<Rightarrow> char" where
  "lowerChar c =
     (case map_of (zip ''ABCDEFGHIJKLMNOPQRSTUVWXYZ'' ''abcdefghijklmnopqrstuvwxyz'') c of
        Some l \<Rightarrow> l
      | None \<Rightarrow> c)"

definition toLowerCase :: "string \<Rightarrow> string" where
  "toLowerCase s = map lowerChar s"

definition trim :: "string \<Rightarrow> string" where
  "trim s = rev (dropWhile isSpace (rev (dropWhile isSpace s)))"

subsection \<open>Reading decimal digits\<close>

definition digitVal :: "char \<Rightarrow> int" where
  "digitVal c = of_char c - 48"

definition parseDigits :: "string \<Rightarrow> int" where
  "parseDigits s = foldl (\<lambda>a c. 10 * a + digitVal c) 0 s"

text \<open>\<^verbatim>\<open>parseInt(s, 10)\<close> on a capture of \<^verbatim>\<open>\d{2}\<close> or \<^verbatim>\<open>\d{4}\<close>, the only strings
  the source passes to it.\<close>

definition parseInt :: "string \<Rightarrow> int" where
  "parseInt s = parseDigits s"

text \<open>
  Rounding into binary64, as far as the model keeps it: a value whose magnitude
  reaches \<open>2^1024 - 2^970\<close>, halfway between the largest finite value and \<open>2^1024\<close>,
  becomes an infinity.
\<close>

definition toDouble :: "rat \<Rightarrow> jsnum" where
  "toDouble q =
     (if 2 ^ 1024 - 2 ^ 970 \<le> q then PosInf
      else if q \<le> - (2 ^ 1024 - 2 ^ 970) then NegInf
      else Fin q)"

text \<open>
  An unsigned decimal literal over digits and the period: digits, digits with a
  fraction (\<^verbatim>\<open>12.\<close>, \<^verbatim>\<open>12.5\<close>) or a bare fraction (\<^verbatim>\<open>.5\<close>). None when the string is
  not such a literal.
\<close>

definition strDecimal :: "string \<Rightarrow> rat option" where
  "strDecimal s =
     (let ip = takeWhile (\<lambda>c. c \<noteq> CHR ''.'') s;
          rest = dropWhile (\<lambda>c. c \<noteq> CHR ''.'') s
      in case rest of
           [] \<Rightarrow> if ip \<noteq> [] \<and> list_all isDigit ip then Some (of_int (parseDigits ip)) else None
         | _ # fp \<Rightarrow>
             if (ip \<noteq> [] \<or> fp \<noteq> []) \<and> list_all isDigit ip \<and> list_all isDigit fp
             then Some (of_int (parseDigits (ip @ fp)) / 10 ^ length fp)
             else None)"

text \<open>
  \<^verbatim>\<open>Number(s)\<close> for a string over digits, the period and the minus sign, which is
  all that \<^verbatim>\<open>toNumber\<close> leaves of its argument: the empty string is \<open>0\<close>, an optionally
  signed decimal literal is its value, anything else is \<^verbatim>\<open>NaN\<close>.
\<close>

definition jsNumber :: "string \<Rightarrow> jsnum" where
  "jsNumber s =
     (case s of
        [] \<Rightarrow> Fin 0
      | c # u \<Rightarrow>
          if c = CHR ''-''
          then (case strDecimal u of None \<Rightarrow> NaN | Some q \<Rightarrow> toDouble (- q))
          else (case strDecimal s of None \<Rightarrow> NaN | Some q \<Rightarrow> toDouble q))"

section \<open>Helpers: numbers and time parsing\<close>

text \<open>
  \<^verbatim>\<open>
  const toNumber = (v) => {
    if (typeof v === 'number') return v;
    if (typeof v === 'string') {
      const cleaned = v.replace(/[^\d.,-]/g, '').replace(/\s+/g, '').replace(/,/g, '');
      const n = Number(cleaned);
      return Number.isFinite(n) ? n : NaN;
    }
    return NaN;
  };
  \<close>
\<close>

definition cleaned :: "string \<Rightarrow> string" where
  "cleaned v = filter (\<lambda>c. c \<noteq> CHR '','') (filter (\<lambda>c. \<not> isSpace c) (filter isNumChar v))"

fun toNumber :: "jsval \<Rightarrow> jsnum" where
  "toNumber (JNum n) = n"
| "toNumber (JStr v) = (let n = jsNumber (cleaned v) in if isFinite n then n else NaN)"
| "toNumber JUndefined = NaN"
| "toNumber JNull = NaN"
| "toNumber (JBool b) = NaN"

text \<open>
  \<^verbatim>\<open>
  const MONTHS3 = ['Jan','Feb','Mar','Apr','May','Jun','Jul','Aug','Sep','Oct','Nov','Dec'];
  const fullTo3 = (m) => {
    const idx = ['January', ... ,'December']
      .findIndex(x => x.toLowerCase() === String(m).toLowerCase());
    return idx >= 0 ? MONTHS3[idx] : null;
  };
  \<close>
  \<^verbatim>\<open>findIndex\<close> and \<^verbatim>\<open>indexOf\<close> give \<open>-1\<close> when nothing is found.
\<close>

fun findIndex :: "('a \<Rightarrow> bool) \<Rightarrow> 'a list \<Rightarrow> int" where
  "findIndex P [] = - 1"
| "findIndex P (x # xs) =
     (if P x then 0 else (let i = findIndex P xs in if i < 0 then - 1 else i + 1))"

definition indexOf :: "'a list \<Rightarrow> 'a \<Rightarrow> int" where
  "indexOf xs x = findIndex (\<lambda>y. y = x) xs"

definition MONTHS3 :: "string list" where
  "MONTHS3 = [''Jan'', ''Feb'', ''Mar'', ''Apr'', ''May'', ''Jun'',
              ''Jul'', ''Aug'', ''Sep'', ''Oct'', ''Nov'', ''Dec'']"

definition MONTHS_FULL :: "string list" where
  "MONTHS_FULL = [''January'', ''February'', ''March'', ''April'', ''May'', ''June'', ''July'',
                  ''August'', ''September'', ''October'', ''November'', ''December'']"

definition fullTo3 :: "string \<Rightarrow> string option" where
  "fullTo3 m =
     (let idx = findIndex (\<lambda>x. toLowerCase x = toLowerCase m) MONTHS_FULL
      in if idx \<ge> 0 then Some (MONTHS3 ! nat idx) else None)"

text \<open>
  The five regular expressions of \<^verbatim>\<open>monthIndex\<close>, each giving its two captures (the
  last one its single capture). The classes \<^verbatim>\<open>[A-Za-z]\<close>, \<^verbatim>\<open>\s\<close> and \<^verbatim>\<open>\d\<close> are
  disjoint, so the greedy split is the only one that can match.
  \<^verbatim>\<open>
  /^([A-Za-z]{3})\s+(\d{4})$/    /^([A-Za-z]+)\s+(\d{4})$/
  /^(\d{4})-(\d{2})$/            /^(\d{2})\/(\d{4})$/            /^(\d{4})$/
  \<close>
\<close>

definition match_word_year :: "string \<Rightarrow> (string \<times> string) option" where
  "match_word_year t =
     (let w = takeWhile isAlpha t;
          sp = takeWhile isSpace (dropWhile isAlpha t);
          y = dropWhile isSpace (dropWhile isAlpha t)
      in if w \<noteq> [] \<and> sp \<noteq> [] \<and> length y = 4 \<and> list_all isDigit y then Some (w, y) else None)"

definition match_abbr_year :: "string \<Rightarrow> (string \<times> string) option" where
  "match_abbr_year t =
     (case match_word_year t of
        Some (w, y) \<Rightarrow> if length w = 3 then Some (w, y) else None
      | None \<Rightarrow> None)"

definition match_year_month :: "string \<Rightarrow> (string \<times> string) option" where
  "match_year_month t =
     (if length t = 7 \<and> list_all isDigit (take 4 t) \<and> t ! 4 = CHR ''-'' \<and> list_all isDigit (drop 5 t)
      then Some (take 4 t, drop 5 t) else None)"

definition match_month_year :: "string \<Rightarrow> (string \<times> string) option" where
  "match_month_year t =
     (if length t = 7 \<and> list_all isDigit (take 2 t) \<and> t ! 2 = CHR ''/'' \<and> list_all isDigit (drop 3 t)
      then Some (take 2 t, drop 3 t) else None)"

definition match_year :: "string \<Rightarrow> string option" where
  "match_year t = (if length t = 4 \<and> list_all isDigit t then Some t else None)"

text \<open>
  \<^verbatim>\<open>
  const monthIndex = (s) => {
    if (typeof s !== 'string') return Number.POSITIVE_INFINITY;
    const t = s.trim();
    let m = t.match(/^([A-Za-z]{3})\s+(\d{4})$/);
    if (m) { const mi = MONTHS3.indexOf(m[1].slice(0,3));
             return (parseInt(m[2],10)*12)+(mi>=0?mi:0); }
    m = t.match(/^([A-Za-z]+)\s+(\d{4})$/);
    if (m) { const abbr = fullTo3(m[1]) || m[1].slice(0,3);
             const mi = MONTHS3.indexOf(abbr);
             return (parseInt(m[2],10)*12)+(mi>=0?mi:0); }
    m = t.match(/^(\d{4})-(\d{2})$/); if (m) return (parseInt(m[1],10)*12)+(parseInt(m[2],10)-1);
    m = t.match(/^(\d{2})\/(\d{4})$/); if (m) return (parseInt(m[2],10)*12)+(parseInt(m[1],10)-1);
    m = t.match(/^(\d{4})$/); if (m) return parseInt(m[1],10)*12;
    return Number.POSITIVE_INFINITY;
  };
  \<close>
\<close>

definition monthOf :: "string \<Rightarrow> int" where
  "monthOf abbr = (let mi = indexOf MONTHS3 abbr in if mi \<ge> 0 then mi else 0)"

definition monthIndexStr :: "string \<Rightarrow> jsnum" where
  "monthIndexStr s =
     (let t = trim s in
      case match_abbr_year t of
        Some (w, y) \<Rightarrow> Fin (of_int (parseInt y * 12 + monthOf (take 3 w)))
      | None \<Rightarrow>
     (case match_word_year t of
        Some (w, y) \<Rightarrow>
          Fin (of_int (parseInt y * 12 +
                 monthOf (case fullTo3 w of Some a \<Rightarrow> a | None \<Rightarrow> take 3 w)))
      | None \<Rightarrow>
     (case match_year_month t of
        Some (y, m) \<Rightarrow> Fin (of_int (parseInt y * 12 + (parseInt m - 1)))
      | None \<Rightarrow>
     (case match_month_year t of
        Some (m, y) \<Rightarrow> Fin (of_int (parseInt y * 12 + (parseInt m - 1)))
      | None \<Rightarrow>
     (case match_year t of
        Some y \<Rightarrow> Fin (of_int (parseInt y * 12))
      | None \<Rightarrow> PosInf)))))"

fun monthIndex :: "jsval \<Rightarrow> jsnum" where
  "monthIndex (JStr s) = monthIndexStr s"
| "monthIndex JUndefined = PosInf"
| "monthIndex JNull = PosInf"
| "monthIndex (JBool b) = PosInf"
| "monthIndex (JNum n) = PosInf"


subsection \<open>The platform, and conversion to strings\<close>

text \<open>
  Two built-ins are taken as parameters. \<^verbatim>\<open>String.prototype.localeCompare\<close> depends on
  the locale of the browser. \<^verbatim>\<open>Number.prototype.toString\<close> on a number that is not an
  integer below \<open>10^21\<close> in magnitude prints the shortest digits that read back as the
  same binary64 value, which the model of numbers does not determine.
\<close>

record env =
  localeCompare :: "string \<Rightarrow> string \<Rightarrow> int"
  numberToString :: "rat \<Rightarrow> string"

definition digitChar :: "nat \<Rightarrow> char" where
  "digitChar d = ''0123456789'' ! d"

function natToString :: "int \<Rightarrow> string" where
  "natToString n =
     (if n < 10 then [digitChar (nat n)]
      else natToString (n div 10) @ [digitChar (nat (n mod 10))])"
  by pat_completeness auto
termination
  by (relation "measure nat") auto

declare natToString.simps [simp del]

definition intToString :: "int \<Rightarrow> string" where
  "intToString i = (if i < 0 then CHR ''-'' # natToString (- i) else natToString i)"

text \<open>\<^verbatim>\<open>String(v)\<close>, which is also how a value becomes a property key.\<close>

fun jsString :: "env \<Rightarrow> jsval \<Rightarrow> string" where
  "jsString E JUndefined = ''undefined''"
| "jsString E JNull = ''null''"
| "jsString E (JBool b) = (if b then ''true'' else ''false'')"
| "jsString E (JStr s) = s"
| "jsString E (JNum NaN) = ''NaN''"
| "jsString E (JNum PosInf) = ''Infinity''"
| "jsString E (JNum NegInf) = ''-Infinity''"
| "jsString E (JNum (Fin q)) =
     (if q = of_int \<lfloor>q\<rfloor> \<and> \<bar>q\<bar> < 10 ^ 21 then intToString \<lfloor>q\<rfloor> else numberToString E q)"

subsection \<open>Objects\<close>

text \<open>
  An object is the list of its own properties in the order \<^verbatim>\<open>Object.keys\<close> gives
  them. \<^verbatim>\<open>r[k]\<close> on a row reads an own property, and \<^verbatim>\<open>undefined\<close> when there is
  none: the properties a row inherits from \<^verbatim>\<open>Object.prototype\<close> are not modelled.
\<close>

type_synonym jsobj = "(string \<times> jsval) list"

definition jsget :: "jsobj \<Rightarrow> string \<Rightarrow> jsval" where
  "jsget r k = (case map_of r k of Some v \<Rightarrow> v | None \<Rightarrow> JUndefined)"

text \<open>
  An array index is the decimal form of an integer below \<open>2^32 - 1 = 4294967295\<close>. The keys of an
  object list its array indices first, in ascending order, then its other keys in the
  order they were created.
\<close>

definition isArrayIndex :: "string \<Rightarrow> bool" where
  "isArrayIndex k \<longleftrightarrow>
     k \<noteq> [] \<and> list_all isDigit k \<and> (k = ''0'' \<or> hd k \<noteq> CHR ''0'') \<and> parseDigits k < 4294967295"

fun insertKey :: "string \<Rightarrow> jsval \<Rightarrow> jsobj \<Rightarrow> jsobj" where
  "insertKey k v [] = [(k, v)]"
| "insertKey k v ((k', v') # kvs) =
     (if isArrayIndex k \<and> (\<not> isArrayIndex k' \<or> parseDigits k < parseDigits k')
      then (k, v) # (k', v') # kvs
      else (k', v') # insertKey k v kvs)"

text \<open>
  \<^verbatim>\<open>o[k] = v\<close> for a number \<open>v\<close> on an object made by an object literal: an own property
  is overwritten where it stands; a new one is created, except under the key
  \<^verbatim>\<open>__proto__\<close>, where the assignment reaches the setter of \<^verbatim>\<open>Object.prototype\<close>, which
  ignores a number.
\<close>

definition jsset :: "jsobj \<Rightarrow> string \<Rightarrow> jsval \<Rightarrow> jsobj" where
  "jsset obj k v =
     (if k \<in> set (map fst obj) then map (\<lambda>(k', v'). if k' = k then (k', v) else (k', v')) obj
      else if k = ''__proto__'' then obj
      else insertKey k v obj)"

section \<open>Names of columns\<close>

text \<open>
  \<^verbatim>\<open>
  const looksLikeTimeName = (name) => /(^|_)(month|date|period|quarter|year)s?($|_)/i.test(name);
  const nameMatches = (name, patterns) => patterns.some(p => new RegExp(p, 'i').test(name));
  \<close>
  Under the \<^verbatim>\<open>i\<close> flag an ASCII letter of a pattern matches its two cases and nothing
  else, so a name is compared in lower case.
\<close>

definition timeWords :: "string list" where
  "timeWords = [''month'', ''date'', ''period'', ''quarter'', ''year'']"

definition endsHere :: "string \<Rightarrow> bool" where
  "endsHere r \<longleftrightarrow> (case r of [] \<Rightarrow> True | c # _ \<Rightarrow> c = CHR ''_'')"

definition timeWordHere :: "string \<Rightarrow> bool" where
  "timeWordHere r \<longleftrightarrow>
     list_ex (\<lambda>w. take (length w) r = w \<and>
                 (let r' = drop (length w) r
                  in endsHere r' \<or> (case r' of [] \<Rightarrow> False | c # r'' \<Rightarrow> c = CHR ''s'' \<and> endsHere r'')))
       timeWords"

text \<open>The flag says whether the position is the start of the name or follows an underscore.\<close>

fun searchTimeWord :: "bool \<Rightarrow> string \<Rightarrow> bool" where
  "searchTimeWord b [] = False"
| "searchTimeWord b (c # cs) = ((b \<and> timeWordHere (c # cs)) \<or> searchTimeWord (c = CHR ''_'') cs)"

definition looksLikeTimeName :: "string \<Rightarrow> bool" where
  "looksLikeTimeName name = searchTimeWord True (toLowerCase name)"

fun containsStr :: "string \<Rightarrow> string \<Rightarrow> bool" where
  "containsStr w [] = (w = [])"
| "containsStr w (c # cs) = (take (length w) (c # cs) = w \<or> containsStr w cs)"

text \<open>
  \<^verbatim>\<open>new RegExp(p, 'i').test(name)\<close> for the patterns of the source: a word of letters
  and underscores, matched anywhere in the name, or the whole name when the pattern is
  written \<^verbatim>\<open>^word$\<close>.
\<close>

definition regexTestI :: "string \<Rightarrow> string \<Rightarrow> bool" where
  "regexTestI p name =
     (if 2 \<le> length p \<and> hd p = CHR ''^'' \<and> last p = CHR ''$''
      then toLowerCase name = toLowerCase (butlast (tl p))
      else containsStr (toLowerCase p) (toLowerCase name))"

definition nameMatches :: "string \<Rightarrow> string list \<Rightarrow> bool" where
  "nameMatches name patterns = list_ex (\<lambda>p. regexTestI p name) patterns"

text \<open>
  \<^verbatim>\<open>
  const isTimeLikeAxis = (name, sampleValues = []) => {
    if (!name) return false;
    if (looksLikeTimeName(name)) return true;
    const toCheck = sampleValues.slice(0, 15);
    let parsed = 0;
    for (const v of toCheck) if (Number.isFinite(monthIndex(String(v ?? '')))) parsed++;
    return parsed >= Math.ceil((toCheck.length || 1) * 0.6);
  };
  \<close>
  The name is a column name or null. For the lengths 1 to 15 the binary64 product with
  \<^verbatim>\<open>0.6\<close> has the ceiling of the exact product.
\<close>

definition truthy :: "string option \<Rightarrow> bool" where
  "truthy k \<longleftrightarrow> (case k of None \<Rightarrow> False | Some s \<Rightarrow> s \<noteq> [])"

definition sampleText :: "env \<Rightarrow> jsval \<Rightarrow> string" where
  "sampleText E v = (if v = JUndefined \<or> v = JNull then [] else jsString E v)"

definition isTimeLikeAxis :: "env \<Rightarrow> string option \<Rightarrow> jsval list \<Rightarrow> bool" where
  "isTimeLikeAxis E name sampleValues =
     (if \<not> truthy name then False
      else if looksLikeTimeName (the name) then True
      else (let toCheck = take 15 sampleValues;
                parsed = length (filter (\<lambda>v. isFinite (monthIndex (JStr (sampleText E v)))) toCheck);
                n = (if length toCheck = 0 then 1 else length toCheck)
            in int parsed \<ge> \<lceil>of_nat n * (6 / 10 :: rat)\<rceil>))"


section \<open>Axis resolution\<close>

text \<open>
  \<^verbatim>\<open>
  function resolveAxes(rows) {
    if (!Array.isArray(rows) || rows.length === 0) {
      return { xKey: null, seriesKey: null, yKey: null, isMulti: false };
    }
    const sample = rows[0];
    const cols = Object.keys(sample || {});
    const isNum = (c) => Number.isFinite(toNumber(sample[c]));
    const numericCols    = cols.filter(isNum);
    const nonNumericCols = cols.filter(c => !isNum(c));
    const timeCandidates = ['^month$', 'month', 'date', 'period', 'quarter', '^year$'];
    let xKey = cols.find(c => nameMatches(c, timeCandidates));
    const geoPrefs     = ['^region$', 'region', '^branch$', 'branch_name', 'city', 'country', 'location'];
    const productPrefs = ['^product_category$', 'product_category', '^category$', 'category',
                          '^product$', 'model', 'product_name', 'product'];
    const geoCol     = cols.find(c => nameMatches(c, geoPrefs));
    const productCol = cols.find(c => nameMatches(c, productPrefs));
    if (!xKey) xKey = geoCol || nonNumericCols.find(c => looksLikeTimeName(c)) || nonNumericCols[0] || null;
    let seriesKey = null;
    if (xKey && productCol && productCol !== xKey) seriesKey = productCol;
    else if (xKey && geoCol && geoCol !== xKey)   seriesKey = geoCol;
    else seriesKey = nonNumericCols.find(c => c !== xKey) || null;
    const metricPref = ['revenue_rm', 'revenue', 'total_amount', 'price', 'sales', 'total',
                        'total_sales', 'quantity', 'qty', 'count'];
    let yKey = cols.find(c => metricPref.some(p => new RegExp(p, 'i').test(c)) && isNum(c));
    if (!yKey) yKey = numericCols[0] || null;
    const xLooksTime = isTimeLikeAxis(xKey, rows.slice(0, 20).map(r => r?.[xKey]));
    if (!xLooksTime && !nameMatches(xKey || '', geoPrefs) && nameMatches(seriesKey || '', geoPrefs)) {
      const tmp = xKey; xKey = seriesKey; seriesKey = tmp;
    }
    const isMulti = Boolean(xKey && seriesKey && yKey && xKey !== seriesKey
                            && Number.isFinite(toNumber(sample[yKey])));
    return { xKey, seriesKey, yKey, isMulti };
  }
  \<close>
  The rows are an array of objects. A key that is \<^verbatim>\<open>null\<close> or \<^verbatim>\<open>undefined\<close> is \<open>None\<close>;
  the empty string is a key, and like them it is falsy.
\<close>

definition timeCandidates :: "string list" where
  "timeCandidates = [''^month$'', ''month'', ''date'', ''period'', ''quarter'', ''^year$'']"

definition geoPrefs :: "string list" where
  "geoPrefs = [''^region$'', ''region'', ''^branch$'', ''branch_name'', ''city'', ''country'',
               ''location'']"

definition productPrefs :: "string list" where
  "productPrefs = [''^product_category$'', ''product_category'', ''^category$'', ''category'',
                   ''^product$'', ''model'', ''product_name'', ''product'']"

definition metricPref :: "string list" where
  "metricPref = [''revenue_rm'', ''revenue'', ''total_amount'', ''price'', ''sales'', ''total'',
                 ''total_sales'', ''quantity'', ''qty'', ''count'']"

record axes =
  xKey :: "string option"
  seriesKey :: "string option"
  yKey :: "string option"
  isMulti :: bool

text \<open>\<^verbatim>\<open>a || b\<close> on keys, and \<^verbatim>\<open>xs[0]\<close>.\<close>

definition orElse :: "string option \<Rightarrow> string option \<Rightarrow> string option" where
  "orElse a b = (if truthy a then a else b)"

definition first :: "'a list \<Rightarrow> 'a option" where
  "first xs = (case xs of [] \<Rightarrow> None | x # _ \<Rightarrow> Some x)"

definition isNum :: "jsobj \<Rightarrow> string \<Rightarrow> bool" where
  "isNum sample c = isFinite (toNumber (jsget sample c))"

text \<open>The key a value of \<^verbatim>\<open>xKey\<close> names when it indexes a row.\<close>

definition keyName :: "string option \<Rightarrow> string" where
  "keyName k = (case k of None \<Rightarrow> ''null'' | Some c \<Rightarrow> c)"

definition keyOrEmpty :: "string option \<Rightarrow> string" where
  "keyOrEmpty k = (case orElse k (Some []) of None \<Rightarrow> [] | Some c \<Rightarrow> c)"

text \<open>The three candidates, as they stand before the swap (up to the line that sets \<^verbatim>\<open>yKey\<close>).\<close>

definition candidateX :: "jsobj \<Rightarrow> string option" where
  "candidateX sample =
     (let cols = map fst sample;
          nonNumericCols = filter (\<lambda>c. \<not> isNum sample c) cols;
          xKey0 = find (\<lambda>c. nameMatches c timeCandidates) cols;
          geoCol = find (\<lambda>c. nameMatches c geoPrefs) cols
      in if \<not> truthy xKey0
         then orElse geoCol (orElse (find looksLikeTimeName nonNumericCols)
                (orElse (first nonNumericCols) None))
         else xKey0)"

definition candidateSeries :: "jsobj \<Rightarrow> string option" where
  "candidateSeries sample =
     (let cols = map fst sample;
          nonNumericCols = filter (\<lambda>c. \<not> isNum sample c) cols;
          geoCol = find (\<lambda>c. nameMatches c geoPrefs) cols;
          productCol = find (\<lambda>c. nameMatches c productPrefs) cols;
          x = candidateX sample
      in if truthy x \<and> truthy productCol \<and> productCol \<noteq> x then productCol
         else if truthy x \<and> truthy geoCol \<and> geoCol \<noteq> x then geoCol
         else orElse (find (\<lambda>c. Some c \<noteq> x) nonNumericCols) None)"

definition candidateY :: "jsobj \<Rightarrow> string option" where
  "candidateY sample =
     (let cols = map fst sample;
          numericCols = filter (isNum sample) cols;
          yKey0 = find (\<lambda>c. nameMatches c metricPref \<and> isNum sample c) cols
      in if \<not> truthy yKey0 then orElse (first numericCols) None else yKey0)"

definition swapNeeded :: "env \<Rightarrow> jsobj list \<Rightarrow> string option \<Rightarrow> string option \<Rightarrow> bool" where
  "swapNeeded E rows x s =
     (let xLooksTime = isTimeLikeAxis E x (map (\<lambda>r. jsget r (keyName x)) (take 20 rows))
      in \<not> xLooksTime \<and> \<not> nameMatches (keyOrEmpty x) geoPrefs \<and> nameMatches (keyOrEmpty s) geoPrefs)"

definition resolveAxes :: "env \<Rightarrow> jsobj list \<Rightarrow> axes" where
  "resolveAxes E rows =
     (case rows of
        [] \<Rightarrow> \<lparr>xKey = None, seriesKey = None, yKey = None, isMulti = False\<rparr>
      | sample # _ \<Rightarrow>
          (let x0 = candidateX sample;
               s0 = candidateSeries sample;
               y = candidateY sample;
               sw = swapNeeded E rows x0 s0;
               x = (if sw then s0 else x0);
               s = (if sw then x0 else s0)
           in \<lparr>xKey = x, seriesKey = s, yKey = y,
               isMulti = (truthy x \<and> truthy s \<and> truthy y \<and> x \<noteq> s \<and>
                          isFinite (toNumber (jsget sample (keyName y))))\<rparr>))"

section \<open>Pivoting\<close>

text \<open>
  \<^verbatim>\<open>
  function pivotData(rows, xKey, seriesKey, yKey) {
    const xSet = new Set();
    const seriesSet = new Set();
    const map = new Map();
    rows.forEach(r => {
      const x = r[xKey];
      const s = r[seriesKey];
      const v = toNumber(r[yKey]);
      if (!map.has(x)) map.set(x, { [xKey]: x });
      map.get(x)[s] = Number.isFinite(v) ? v : 0;
      xSet.add(x); seriesSet.add(s);
    });
    const xs = Array.from(xSet);
    xs.sort((a, b) => {
      const ia = monthIndex(String(a));
      const ib = monthIndex(String(b));
      if (Number.isFinite(ia) && Number.isFinite(ib)) return ia - ib;
      if (Number.isFinite(ia)) return -1;
      if (Number.isFinite(ib)) return 1;
      return String(a).localeCompare(String(b));
    });
    return { data: xs.map(x => map.get(x)), series: Array.from(seriesSet) };
  }
  \<close>
  A \<^verbatim>\<open>Set\<close> is the list of its members in the order they were added, a \<^verbatim>\<open>Map\<close> the list
  of its entries in the order their keys were added. Both compare keys by
  \<^verbatim>\<open>SameValueZero\<close>, which on the values of the model is equality.
\<close>

definition setAdd :: "'a list \<Rightarrow> 'a \<Rightarrow> 'a list" where
  "setAdd xs x = (if x \<in> set xs then xs else xs @ [x])"

definition mapHas :: "('k \<times> 'v) list \<Rightarrow> 'k \<Rightarrow> bool" where
  "mapHas m k \<longleftrightarrow> k \<in> set (map fst m)"

definition mapSet :: "('k \<times> 'v) list \<Rightarrow> 'k \<Rightarrow> 'v \<Rightarrow> ('k \<times> 'v) list" where
  "mapSet m k v =
     (if mapHas m k then map (\<lambda>(k', v'). if k' = k then (k', v) else (k', v')) m
      else m @ [(k, v)])"

definition mapGet :: "('k \<times> jsobj) list \<Rightarrow> 'k \<Rightarrow> jsobj" where
  "mapGet m k = (case map_of m k of Some obj \<Rightarrow> obj | None \<Rightarrow> [])"

record pivotState =
  xSet :: "jsval list"
  seriesSet :: "jsval list"
  wide :: "(jsval \<times> jsobj) list"

definition metricOf :: "jsobj \<Rightarrow> string \<Rightarrow> jsval" where
  "metricOf r yk = (let v = toNumber (jsget r yk) in JNum (if isFinite v then v else Fin 0))"

text \<open>One call of the function passed to \<^verbatim>\<open>forEach\<close>.\<close>

definition pivotStep :: "env \<Rightarrow> string \<Rightarrow> string \<Rightarrow> string \<Rightarrow> pivotState \<Rightarrow> jsobj \<Rightarrow> pivotState" where
  "pivotStep E xk sk yk st r =
     (let x = jsget r xk;
          s = jsget r sk;
          m1 = (if \<not> mapHas (wide st) x then mapSet (wide st) x [(xk, x)] else wide st);
          m2 = mapSet m1 x (jsset (mapGet m1 x) (jsString E s) (metricOf r yk))
      in \<lparr>xSet = setAdd (xSet st) x, seriesSet = setAdd (seriesSet st) s, wide = m2\<rparr>)"

definition pivotLoop :: "env \<Rightarrow> string \<Rightarrow> string \<Rightarrow> string \<Rightarrow> jsobj list \<Rightarrow> pivotState" where
  "pivotLoop E xk sk yk rows =
     foldl (pivotStep E xk sk yk) \<lparr>xSet = [], seriesSet = [], wide = []\<rparr> rows"

text \<open>The comparison function handed to \<^verbatim>\<open>sort\<close>.\<close>

definition compareX :: "env \<Rightarrow> jsval \<Rightarrow> jsval \<Rightarrow> rat" where
  "compareX E a b =
     (case (monthIndex (JStr (jsString E a)), monthIndex (JStr (jsString E b))) of
        (Fin ia, Fin ib) \<Rightarrow> ia - ib
      | (Fin ia, _) \<Rightarrow> - 1
      | (_, Fin ib) \<Rightarrow> 1
      | _ \<Rightarrow> of_int (localeCompare E (jsString E a) (jsString E b)))"

text \<open>
  \<^verbatim>\<open>Array.prototype.sort\<close> puts \<^verbatim>\<open>undefined\<close> last without asking the comparison
  function, and is stable. With a comparison function that is a consistent ordering
  every stable sort gives the same array; the model inserts each element, from the last
  to the first, before the first element it does not come after.
\<close>

definition sortCompare :: "(jsval \<Rightarrow> jsval \<Rightarrow> rat) \<Rightarrow> jsval \<Rightarrow> jsval \<Rightarrow> rat" where
  "sortCompare cmp a b =
     (if a = JUndefined \<and> b = JUndefined then 0
      else if a = JUndefined then 1
      else if b = JUndefined then - 1
      else cmp a b)"

fun insertBy :: "('a \<Rightarrow> 'a \<Rightarrow> rat) \<Rightarrow> 'a \<Rightarrow> 'a list \<Rightarrow> 'a list" where
  "insertBy cmp x [] = [x]"
| "insertBy cmp x (y # ys) = (if cmp x y \<le> 0 then x # y # ys else y # insertBy cmp x ys)"

definition sortBy :: "('a \<Rightarrow> 'a \<Rightarrow> rat) \<Rightarrow> 'a list \<Rightarrow> 'a list" where
  "sortBy cmp xs = foldr (insertBy cmp) xs []"

definition jsSort :: "(jsval \<Rightarrow> jsval \<Rightarrow> rat) \<Rightarrow> jsval list \<Rightarrow> jsval list" where
  "jsSort cmp xs = sortBy (sortCompare cmp) xs"

text \<open>The ordering of the x values: the array \<^verbatim>\<open>xs\<close> after its \<^verbatim>\<open>sort\<close>.\<close>

definition orderXs :: "env \<Rightarrow> jsval list \<Rightarrow> jsval list" where
  "orderXs E xs = jsSort (compareX E) xs"

record pivot =
  data :: "jsobj list"
  series :: "jsval list"

definition pivotData :: "env \<Rightarrow> jsobj list \<Rightarrow> string \<Rightarrow> string \<Rightarrow> string \<Rightarrow> pivot" where
  "pivotData E rows xk sk yk =
     (let st = pivotLoop E xk sk yk rows;
          xs = orderXs E (xSet st)
      in \<lparr>data = map (\<lambda>x. mapGet (wide st) x) xs, series = seriesSet st\<rparr>)"


section \<open>Notions used in the statements\<close>

text \<open>A number below 100, and one below 10000, written with two and with four digits.\<close>

definition pad2 :: "nat \<Rightarrow> string" where
  "pad2 n = [digitChar (n div 10 mod 10), digitChar (n mod 10)]"

definition pad4 :: "nat \<Rightarrow> string" where
  "pad4 n = [digitChar (n div 1000 mod 10), digitChar (n div 100 mod 10),
             digitChar (n div 10 mod 10), digitChar (n mod 10)]"

text \<open>
  The four forms a trimmed text can have for \<^verbatim>\<open>monthIndex\<close> to read it, stated on
  their own: a word of letters, white space and four digits; four digits, a dash and
  two digits; two digits, a slash and four digits; four digits.
\<close>

definition isWordYear :: "string \<Rightarrow> bool" where
  "isWordYear t \<longleftrightarrow>
     (\<exists>w sp y. t = w @ sp @ y \<and> w \<noteq> [] \<and> list_all isAlpha w \<and> sp \<noteq> [] \<and> list_all isSpace sp
               \<and> length y = 4 \<and> list_all isDigit y)"

definition isYearDashMonth :: "string \<Rightarrow> bool" where
  "isYearDashMonth t \<longleftrightarrow>
     (\<exists>y m. t = y @ ''-'' @ m \<and> length y = 4 \<and> list_all isDigit y \<and> length m = 2 \<and> list_all isDigit m)"

definition isMonthSlashYear :: "string \<Rightarrow> bool" where
  "isMonthSlashYear t \<longleftrightarrow>
     (\<exists>m y. t = m @ ''/'' @ y \<and> length m = 2 \<and> list_all isDigit m \<and> length y = 4 \<and> list_all isDigit y)"

definition isYear :: "string \<Rightarrow> bool" where
  "isYear t \<longleftrightarrow> length t = 4 \<and> list_all isDigit t"

definition hasTimeShape :: "string \<Rightarrow> bool" where
  "hasTimeShape t \<longleftrightarrow> isWordYear t \<or> isYearDashMonth t \<or> isMonthSlashYear t \<or> isYear t"


text \<open>A resolved key is null or one of the keys of the first row.\<close>

definition isKeyOrNull :: "jsobj \<Rightarrow> string option \<Rightarrow> bool" where
  "isKeyOrNull sample k \<longleftrightarrow> k = None \<or> k \<in> Some ` set (map fst sample)"

text \<open>
  A platform for the examples: strings are compared code unit by code unit, which is
  how \<^verbatim>\<open>localeCompare\<close> orders the capitalised English words used there; no number of
  the examples needs \<^verbatim>\<open>numberToString\<close>.
\<close>

fun codeUnitCompare :: "string \<Rightarrow> string \<Rightarrow> int" where
  "codeUnitCompare [] [] = 0"
| "codeUnitCompare [] (b # bs) = - 1"
| "codeUnitCompare (a # as) [] = 1"
| "codeUnitCompare (a # as) (b # bs) =
     (if (of_char a :: nat) < of_char b then - 1
      else if (of_char b :: nat) < of_char a then 1
      else codeUnitCompare as bs)"

definition plainEnv :: env where
  "plainEnv = \<lparr>localeCompare = codeUnitCompare, numberToString = (\<lambda>q. [])\<rparr>"

text \<open>
  A value is numeric, in the sense the metric is chosen by, when it is a finite number
  or a text of which the characters that \<^verbatim>\<open>toNumber\<close> keeps are not all gone and read
  as a finite number. A text without any digit, period or minus sign is not numeric.
\<close>

definition textWithoutNumber :: "jsval \<Rightarrow> bool" where
  "textWithoutNumber v \<longleftrightarrow>
     (case v of
        JStr s \<Rightarrow> list_all (\<lambda>c. \<not> isDigit c \<and> c \<noteq> CHR ''.'' \<and> c \<noteq> CHR ''-'') s
      | _ \<Rightarrow> False)"

definition numericValue :: "jsval \<Rightarrow> bool" where
  "numericValue v \<longleftrightarrow>
     (case v of
        JNum n \<Rightarrow> isFinite n
      | JStr s \<Rightarrow> cleaned s \<noteq> [] \<and> isFinite (jsNumber (cleaned s))
      | _ \<Rightarrow> False)"


text \<open>
  The order of the x values, stated on its own. The index of a value is the month
  index of its text; a value is ordered by its index when that is finite, and by the
  comparison of its text otherwise.
\<close>

definition idxOf :: "env \<Rightarrow> jsval \<Rightarrow> jsnum" where
  "idxOf E a = monthIndex (JStr (jsString E a))"

definition finiteIdx :: "env \<Rightarrow> jsval \<Rightarrow> bool" where
  "finiteIdx E a = isFinite (idxOf E a)"

definition idxVal :: "env \<Rightarrow> jsval \<Rightarrow> rat" where
  "idxVal E a = (case idxOf E a of Fin q \<Rightarrow> q | _ \<Rightarrow> 0)"

definition byIndex :: "env \<Rightarrow> jsval \<Rightarrow> jsval \<Rightarrow> rat" where
  "byIndex E a b = idxVal E a - idxVal E b"

definition byLocale :: "env \<Rightarrow> jsval \<Rightarrow> jsval \<Rightarrow> rat" where
  "byLocale E a b = of_int (localeCompare E (jsString E a) (jsString E b))"

definition otherText :: "env \<Rightarrow> jsval \<Rightarrow> bool" where
  "otherText E a \<longleftrightarrow> a \<noteq> JUndefined \<and> \<not> finiteIdx E a"

text \<open>
  The pivot, stated on its own. The distinct elements of a list in the order they are
  first seen; the x values in the order of the wide rows; the last row of a given x
  value whose series value has a given text; and the field \<open>k\<close> of the wide row of \<open>x\<close>:
  the metric of that last row as a number when it is numeric and 0 when it is not, and
  without such a row the x value itself under the x key, and no field otherwise. The key
  \<^verbatim>\<open>__proto__\<close> is no field unless it is the x key.
\<close>

fun firstSeen :: "'a list \<Rightarrow> 'a list" where
  "firstSeen [] = []"
| "firstSeen (x # xs) = x # filter (\<lambda>y. y \<noteq> x) (firstSeen xs)"

definition pivotXs :: "env \<Rightarrow> jsobj list \<Rightarrow> string \<Rightarrow> jsval list" where
  "pivotXs E rows xk = orderXs E (firstSeen (map (\<lambda>r. jsget r xk) rows))"

definition lastWrite :: "env \<Rightarrow> jsobj list \<Rightarrow> string \<Rightarrow> string \<Rightarrow> jsval \<Rightarrow> string \<Rightarrow> jsobj option" where
  "lastWrite E rows xk sk x k =
     find (\<lambda>r. jsget r xk = x \<and> jsString E (jsget r sk) = k) (rev rows)"

definition cell :: "env \<Rightarrow> jsobj list \<Rightarrow> string \<Rightarrow> string \<Rightarrow> string \<Rightarrow> jsval \<Rightarrow> string \<Rightarrow> jsval option" where
  "cell E rows xk sk yk x k =
     (if k = ''__proto__'' \<and> xk \<noteq> ''__proto__'' then None
      else case lastWrite E rows xk sk x k of
             Some r \<Rightarrow> Some (JNum (if numericValue (jsget r yk) then toNumber (jsget r yk) else Fin 0))
           | None \<Rightarrow> if k = xk then Some x else None)"


section \<open>Characters and digits\<close>

lemma digit_not_alpha: "isDigit c \<Longrightarrow> \<not> isAlpha c"
  by (auto simp: isDigit_def isAlpha_def)

lemma digit_not_space: "isDigit c \<Longrightarrow> \<not> isSpace c"
  by (auto simp: isDigit_def isSpace_def)

lemma space_not_alpha: "isSpace c \<Longrightarrow> \<not> isAlpha c"
  by (auto simp: isSpace_def isAlpha_def)

lemma alpha_not_space: "isAlpha c \<Longrightarrow> \<not> isSpace c"
  using space_not_alpha by blast

lemma len4: "length y = 4 \<longleftrightarrow> (\<exists>a b c d. y = [a, b, c, d])"
  by (auto simp: eval_nat_numeral length_Suc_conv)

lemma len2: "length y = 2 \<longleftrightarrow> (\<exists>a b. y = [a, b])"
  by (auto simp: eval_nat_numeral length_Suc_conv)

lemma below_ten: "d < 10 \<Longrightarrow> d \<in> {0, 1, 2, 3, 4, 5, 6, 7, 8, 9 :: nat}"
  by auto

lemma digitChar_digit: "d < 10 \<Longrightarrow> isDigit (digitChar d)"
  by (drule below_ten) (auto simp: digitChar_def isDigit_def)

lemma digitVal_digitChar: "d < 10 \<Longrightarrow> digitVal (digitChar d) = int d"
  by (drule below_ten) (auto simp: digitChar_def digitVal_def)

lemma pad4_digits: "length (pad4 n) = 4 \<and> list_all isDigit (pad4 n)"
  by (simp add: pad4_def digitChar_digit)

lemma pad2_digits: "length (pad2 n) = 2 \<and> list_all isDigit (pad2 n)"
  by (simp add: pad2_def digitChar_digit)

lemma split4:
  fixes n :: nat
  assumes "n < 10000"
  shows "int (n div 1000 mod 10) * 1000 + int (n div 100 mod 10) * 100
           + int (n div 10 mod 10) * 10 + int (n mod 10) = int n"
proof -
  define a where "a = n div 10"
  define b where "b = a div 10"
  define c where "c = b div 10"
  have n: "n = 10 * a + n mod 10" by (simp add: a_def)
  have a: "a = 10 * b + a mod 10" by (simp add: b_def)
  have b: "b = 10 * c + b mod 10" by (simp add: c_def)
  have b': "n div 100 = b" by (simp add: a_def b_def div_mult2_eq)
  have c': "n div 1000 = c" by (simp add: a_def b_def c_def div_mult2_eq)
  have "c < 10" using assms unfolding c'[symmetric] by simp
  then have c: "c mod 10 = c" by simp
  have "1000 * c + 100 * (b mod 10) + 10 * (a mod 10) + n mod 10 = n"
    using n a b by linarith
  then have "1000 * (n div 1000 mod 10) + 100 * (n div 100 mod 10)
               + 10 * (n div 10 mod 10) + n mod 10 = n"
    by (simp only: b' c' c a_def[symmetric])
  then have "int (1000 * (n div 1000 mod 10) + 100 * (n div 100 mod 10)
               + 10 * (n div 10 mod 10) + n mod 10) = int n"
    by (simp only:)
  then show ?thesis by (simp only: of_nat_add of_nat_mult of_nat_numeral mult.commute)
qed

lemma split2:
  fixes n :: nat
  assumes "n < 100"
  shows "int (n div 10 mod 10) * 10 + int (n mod 10) = int n"
proof -
  have "n div 10 < 10" using assms by simp
  then have "n div 10 mod 10 = n div 10" by simp
  moreover have "10 * (n div 10) + n mod 10 = n" by simp
  ultimately have "(n div 10 mod 10) * 10 + n mod 10 = n" by (simp only: mult.commute)
  then have "int ((n div 10 mod 10) * 10 + n mod 10) = int n" by (simp only:)
  then show ?thesis by (simp only: of_nat_add of_nat_mult of_nat_numeral)
qed

lemma parseInt_pad4: "n < 10000 \<Longrightarrow> parseInt (pad4 n) = int n"
  unfolding parseInt_def parseDigits_def pad4_def
  using split4[of n] by (simp add: digitVal_digitChar)

lemma parseInt_pad2: "n < 100 \<Longrightarrow> parseInt (pad2 n) = int n"
  unfolding parseInt_def parseDigits_def pad2_def
  using split2[of n] by (simp add: digitVal_digitChar)

text \<open>A string that neither starts nor ends with white space is its own trimmed form.\<close>

lemma trim_id:
  assumes "s \<noteq> []" "\<not> isSpace (hd s)" "\<not> isSpace (last s)"
  shows "trim s = s"
proof -
  have a: "dropWhile isSpace s = s" using assms(1,2) by (cases s) auto
  have b: "dropWhile isSpace (rev s) = rev s" using assms(1,3) by (cases s rule: rev_cases) auto
  show ?thesis by (simp add: trim_def a b)
qed

section \<open>The month index of the supported shapes\<close>

text \<open>On a string that starts and ends with a digit only the three digit shapes are left.\<close>

lemma monthIndexStr_digits_first:
  assumes "s \<noteq> []" "isDigit (hd s)" "isDigit (last s)"
  shows "monthIndexStr s =
     (case match_year_month s of
        Some (y, m) \<Rightarrow> Fin (of_int (parseInt y * 12 + (parseInt m - 1)))
      | None \<Rightarrow>
     (case match_month_year s of
        Some (m, y) \<Rightarrow> Fin (of_int (parseInt y * 12 + (parseInt m - 1)))
      | None \<Rightarrow>
     (case match_year s of
        Some y \<Rightarrow> Fin (of_int (parseInt y * 12))
      | None \<Rightarrow> PosInf)))"
proof -
  have t: "trim s = s" using assms by (intro trim_id) (simp_all add: digit_not_space)
  have tw: "takeWhile isAlpha s = []"
    using assms(1,2) by (cases s) (simp_all add: digit_not_alpha)
  have w: "match_word_year s = None"
    unfolding match_word_year_def Let_def tw by simp
  show ?thesis
    unfolding monthIndexStr_def Let_def t match_abbr_year_def w by (simp only: option.case)
qed

lemma year_month_value:
  assumes "length y = 4" "list_all isDigit y" "length m = 2" "list_all isDigit m"
  shows "monthIndexStr (y @ ''-'' @ m) = Fin (of_int (parseInt y * 12 + (parseInt m - 1)))"
proof -
  from assms(1) obtain a b c d where y: "y = [a, b, c, d]" unfolding len4 by blast
  from assms(3) obtain e f where m: "m = [e, f]" unfolding len2 by blast
  have d: "isDigit a" "isDigit b" "isDigit c" "isDigit d" "isDigit e" "isDigit f"
    using assms(2,4) by (simp_all add: y m)
  have ym: "match_year_month (y @ ''-'' @ m) = Some (y, m)"
    by (simp add: match_year_month_def y m d)
  have "monthIndexStr (y @ ''-'' @ m) = (case match_year_month (y @ ''-'' @ m) of
        Some (y, m) \<Rightarrow> Fin (of_int (parseInt y * 12 + (parseInt m - 1)))
      | None \<Rightarrow>
     (case match_month_year (y @ ''-'' @ m) of
        Some (m, y) \<Rightarrow> Fin (of_int (parseInt y * 12 + (parseInt m - 1)))
      | None \<Rightarrow>
     (case match_year (y @ ''-'' @ m) of
        Some y \<Rightarrow> Fin (of_int (parseInt y * 12))
      | None \<Rightarrow> PosInf)))"
    by (rule monthIndexStr_digits_first) (simp_all add: y m d)
  then show ?thesis by (simp only: ym option.case prod.case)
qed

lemma month_year_value:
  assumes "length y = 4" "list_all isDigit y" "length m = 2" "list_all isDigit m"
  shows "monthIndexStr (m @ ''/'' @ y) = Fin (of_int (parseInt y * 12 + (parseInt m - 1)))"
proof -
  from assms(1) obtain a b c d where y: "y = [a, b, c, d]" unfolding len4 by blast
  from assms(3) obtain e f where m: "m = [e, f]" unfolding len2 by blast
  have d: "isDigit a" "isDigit b" "isDigit c" "isDigit d" "isDigit e" "isDigit f"
    using assms(2,4) by (simp_all add: y m)
  have "b \<noteq> CHR ''-''" using d(2) by (auto simp: isDigit_def)
  then have ym: "match_year_month (m @ ''/'' @ y) = None"
    by (simp add: match_year_month_def y m)
  have my: "match_month_year (m @ ''/'' @ y) = Some (m, y)"
    by (simp add: match_month_year_def y m d)
  have "monthIndexStr (m @ ''/'' @ y) = (case match_year_month (m @ ''/'' @ y) of
        Some (y, m) \<Rightarrow> Fin (of_int (parseInt y * 12 + (parseInt m - 1)))
      | None \<Rightarrow>
     (case match_month_year (m @ ''/'' @ y) of
        Some (m, y) \<Rightarrow> Fin (of_int (parseInt y * 12 + (parseInt m - 1)))
      | None \<Rightarrow>
     (case match_year (m @ ''/'' @ y) of
        Some y \<Rightarrow> Fin (of_int (parseInt y * 12))
      | None \<Rightarrow> PosInf)))"
    by (rule monthIndexStr_digits_first) (simp_all add: y m d)
  then show ?thesis by (simp only: ym my option.case prod.case)
qed

text \<open>A word of three letters before the year: the month is looked up, and is 0 when
  the word is not one of \<^verbatim>\<open>MONTHS3\<close>.\<close>

lemma abbr_year_value:
  assumes "length w = 3" "list_all isAlpha w" "length y = 4" "list_all isDigit y"
  shows "monthIndexStr (w @ '' '' @ y) = Fin (of_int (parseInt y * 12 + monthOf w))"
proof -
  from assms(3) obtain a b c d where y: "y = [a, b, c, d]" unfolding len4 by blast
  from assms(1) obtain e f g where w: "w = [e, f, g]"
    by (auto simp: eval_nat_numeral length_Suc_conv)
  have d: "isDigit a" "isDigit b" "isDigit c" "isDigit d" "isAlpha e" "isAlpha f" "isAlpha g"
    using assms(2,4) by (simp_all add: y w)
  have sp: "isSpace CHR '' ''" "\<not> isAlpha CHR '' ''"
    by (simp_all add: isSpace_def isAlpha_def)
  have t: "trim (w @ '' '' @ y) = w @ '' '' @ y"
    by (rule trim_id) (simp_all add: y w d digit_not_space alpha_not_space)
  have wy: "match_word_year (w @ '' '' @ y) = Some (w, y)"
    unfolding match_word_year_def Let_def by (simp add: y w d sp digit_not_space)
  show ?thesis
    unfolding monthIndexStr_def Let_def t match_abbr_year_def wy
    by (simp add: assms(1))
qed

lemma monthOf_table: "map monthOf MONTHS3 = [0, 1, 2, 3, 4, 5, 6, 7, 8, 9, 10, 11]"
  by (simp add: MONTHS3_def monthOf_def indexOf_def)

lemma nth_upto12: "k < 12 \<Longrightarrow> [0, 1, 2, 3, 4, 5, 6, 7, 8, 9, 10, 11 :: int] ! k = int k"
  by (auto simp: eval_nat_numeral less_Suc_eq)

lemma monthOf_MONTHS3:
  assumes "k < 12"
  shows "monthOf (MONTHS3 ! k) = int k"
proof -
  have "length MONTHS3 = 12" by (simp add: MONTHS3_def)
  then have "monthOf (MONTHS3 ! k) = map monthOf MONTHS3 ! k" using assms by simp
  then show ?thesis using assms by (simp only: monthOf_table nth_upto12)
qed

lemma MONTHS3_shape: "k < 12 \<Longrightarrow> length (MONTHS3 ! k) = 3 \<and> list_all isAlpha (MONTHS3 ! k)"
  by (auto simp: eval_nat_numeral less_Suc_eq MONTHS3_def isAlpha_def)

text \<open>\<^verbatim>\<open>monthIndex\<close> gives infinity exactly when none of its patterns matches, and the
  patterns match exactly the four forms.\<close>

lemma monthIndexStr_inf_iff:
  "monthIndexStr s = PosInf \<longleftrightarrow>
     match_word_year (trim s) = None \<and> match_year_month (trim s) = None \<and>
     match_month_year (trim s) = None \<and> match_year (trim s) = None"
  unfolding monthIndexStr_def Let_def match_abbr_year_def
  by (auto split: option.splits prod.splits if_splits)

lemma takeWhile_block:
  assumes "list_all P xs" and "ys = [] \<or> \<not> P (hd ys)"
  shows "takeWhile P (xs @ ys) = xs" and "dropWhile P (xs @ ys) = ys"
proof -
  have a: "\<forall>x\<in>set xs. P x" using assms(1) by (simp add: list_all_iff)
  have b: "takeWhile P ys = []" "dropWhile P ys = ys" using assms(2) by (cases ys; auto)+
  show "takeWhile P (xs @ ys) = xs" using a b by (simp add: takeWhile_append2)
  show "dropWhile P (xs @ ys) = ys" using a b by (simp add: dropWhile_append2)
qed

lemma match_word_year_iff: "match_word_year t \<noteq> None \<longleftrightarrow> isWordYear t"
proof
  assume m: "match_word_year t \<noteq> None"
  let ?w = "takeWhile isAlpha t"
  let ?sp = "takeWhile isSpace (dropWhile isAlpha t)"
  let ?y = "dropWhile isSpace (dropWhile isAlpha t)"
  have c: "?w \<noteq> [] \<and> ?sp \<noteq> [] \<and> length ?y = 4 \<and> list_all isDigit ?y"
    using m unfolding match_word_year_def Let_def by (simp split: if_splits)
  have "t = ?w @ ?sp @ ?y" by simp
  moreover have "list_all isAlpha ?w" "list_all isSpace ?sp"
    by (auto simp: list_all_iff dest: set_takeWhileD)
  ultimately show "isWordYear t" unfolding isWordYear_def using c by blast
next
  assume "isWordYear t"
  then obtain w sp y where t: "t = w @ sp @ y" and w: "w \<noteq> []" "list_all isAlpha w"
    and sp: "sp \<noteq> []" "list_all isSpace sp" and y: "length y = 4" "list_all isDigit y"
    unfolding isWordYear_def by blast
  have y0: "y \<noteq> []" using y(1) by auto
  have "\<not> isAlpha (hd (sp @ y))" using sp by (cases sp) (auto simp: space_not_alpha)
  then have 1: "takeWhile isAlpha t = w" "dropWhile isAlpha t = sp @ y"
    unfolding t using takeWhile_block[of isAlpha w "sp @ y"] w(2) by blast+
  have "\<not> isSpace (hd y)" using y y0 by (cases y) (auto simp: digit_not_space)
  then have 2: "takeWhile isSpace (sp @ y) = sp" "dropWhile isSpace (sp @ y) = y"
    using takeWhile_block[of isSpace sp y] sp(2) by blast+
  show "match_word_year t \<noteq> None"
    unfolding match_word_year_def Let_def 1 2 using w sp y by simp
qed

lemma match_year_month_iff: "match_year_month t \<noteq> None \<longleftrightarrow> isYearDashMonth t"
proof
  assume "match_year_month t \<noteq> None"
  then have c: "length t = 7" "list_all isDigit (take 4 t)" "t ! 4 = CHR ''-''" "list_all isDigit (drop 5 t)"
    unfolding match_year_month_def by (simp_all split: if_splits)
  have "t = take 4 t @ t ! 4 # drop (Suc 4) t" using c(1) by (intro id_take_nth_drop) simp
  then have "t = take 4 t @ ''-'' @ drop 5 t" using c(3) by simp
  moreover have "length (take 4 t) = 4" "length (drop 5 t) = 2" using c(1) by simp_all
  ultimately show "isYearDashMonth t" unfolding isYearDashMonth_def using c(2,4) by blast
next
  assume "isYearDashMonth t"
  then obtain y m where t: "t = y @ ''-'' @ m" and y: "length y = 4" "list_all isDigit y"
    and m: "length m = 2" "list_all isDigit m"
    unfolding isYearDashMonth_def by blast
  show "match_year_month t \<noteq> None"
    unfolding match_year_month_def t using y m by (simp add: nth_append)
qed

lemma match_month_year_iff: "match_month_year t \<noteq> None \<longleftrightarrow> isMonthSlashYear t"
proof
  assume "match_month_year t \<noteq> None"
  then have c: "length t = 7" "list_all isDigit (take 2 t)" "t ! 2 = CHR ''/''" "list_all isDigit (drop 3 t)"
    unfolding match_month_year_def by (simp_all split: if_splits)
  have "t = take 2 t @ t ! 2 # drop (Suc 2) t" using c(1) by (intro id_take_nth_drop) simp
  then have "t = take 2 t @ ''/'' @ drop 3 t" using c(3) by simp
  moreover have "length (take 2 t) = 2" "length (drop 3 t) = 4" using c(1) by simp_all
  ultimately show "isMonthSlashYear t" unfolding isMonthSlashYear_def using c(2,4) by blast
next
  assume "isMonthSlashYear t"
  then obtain m y where t: "t = m @ ''/'' @ y" and y: "length y = 4" "list_all isDigit y"
    and m: "length m = 2" "list_all isDigit m"
    unfolding isMonthSlashYear_def by blast
  show "match_month_year t \<noteq> None"
    unfolding match_month_year_def t using y m by (simp add: nth_append)
qed

lemma match_year_iff: "match_year t \<noteq> None \<longleftrightarrow> isYear t"
  by (simp add: match_year_def isYear_def)

lemma monthIndexStr_inf_shape: "monthIndexStr s = PosInf \<longleftrightarrow> \<not> hasTimeShape (trim s)"
  unfolding monthIndexStr_inf_iff hasTimeShape_def
  using match_word_year_iff[of "trim s"] match_year_month_iff[of "trim s"]
    match_month_year_iff[of "trim s"] match_year_iff[of "trim s"]
  by blast

lemma findIndex_none: "list_all (\<lambda>x. \<not> P x) xs \<Longrightarrow> findIndex P xs = - 1"
  by (induction xs) auto

lemma monthOf_unknown: "w \<notin> set MONTHS3 \<Longrightarrow> monthOf w = 0"
proof -
  assume "w \<notin> set MONTHS3"
  then have "list_all (\<lambda>x. \<not> x = w) MONTHS3" by (auto simp: list_all_iff)
  then have "indexOf MONTHS3 w = - 1" unfolding indexOf_def by (rule findIndex_none)
  then show ?thesis by (simp add: monthOf_def)
qed

section \<open>Results on the month index\<close>

text \<open>
  C8. The three spellings of one month have one index: for a year \<open>y\<close> below 10000
  and a month offset \<open>k\<close> from 0 to 11, the abbreviation of the month followed by the
  year, the year followed by a dash and the two-digit month number, and the month
  number followed by a slash and the year all give \<open>y * 12 + k\<close>. For January 2024
  this is \<open>2024 * 12 + 0 = 24288\<close>.
\<close>

theorem monthIndex_formats_agree:
  assumes "y < 10000" and "k < 12"
  shows "monthIndex (JStr (MONTHS3 ! k @ '' '' @ pad4 y)) = Fin (of_nat (y * 12 + k))
       \<and> monthIndex (JStr (pad4 y @ ''-'' @ pad2 (k + 1))) = Fin (of_nat (y * 12 + k))
       \<and> monthIndex (JStr (pad2 (k + 1) @ ''/'' @ pad4 y)) = Fin (of_nat (y * 12 + k))
       \<and> monthIndex (JStr ''Jan 2024'') = Fin (2024 * 12 + 0)
       \<and> monthIndex (JStr ''2024-01'') = Fin (2024 * 12 + 0)
       \<and> monthIndex (JStr ''01/2024'') = Fin (2024 * 12 + 0)"
proof -
  have k1: "parseInt (pad2 (Suc k)) = int k + 1"
    using parseInt_pad2[of "Suc k"] assms(2) by simp
  have a: "monthIndexStr (MONTHS3 ! k @ '' '' @ pad4 y) = Fin (of_nat (y * 12 + k))"
    using abbr_year_value[of "MONTHS3 ! k" "pad4 y"] MONTHS3_shape[OF assms(2)] pad4_digits[of y]
    by (simp add: parseInt_pad4[OF assms(1)] monthOf_MONTHS3[OF assms(2)])
  have b: "monthIndexStr (pad4 y @ ''-'' @ pad2 (k + 1)) = Fin (of_nat (y * 12 + k))"
    using year_month_value[of "pad4 y" "pad2 (k + 1)"] pad4_digits[of y] pad2_digits[of "k + 1"]
    by (simp add: parseInt_pad4[OF assms(1)] k1)
  have c: "monthIndexStr (pad2 (k + 1) @ ''/'' @ pad4 y) = Fin (of_nat (y * 12 + k))"
    using month_year_value[of "pad4 y" "pad2 (k + 1)"] pad4_digits[of y] pad2_digits[of "k + 1"]
    by (simp add: parseInt_pad4[OF assms(1)] k1)
  have d: "monthIndexStr ''Jan 2024'' = Fin (2024 * 12 + 0)"
    using abbr_year_value[of "''Jan''" "''2024''"]
    by (simp add: isAlpha_def isDigit_def parseInt_def parseDigits_def digitVal_def
        monthOf_def indexOf_def MONTHS3_def)
  have e: "monthIndexStr ''2024-01'' = Fin (2024 * 12 + 0)"
    using year_month_value[of "''2024''" "''01''"]
    by (simp add: isDigit_def parseInt_def parseDigits_def digitVal_def)
  have f: "monthIndexStr ''01/2024'' = Fin (2024 * 12 + 0)"
    using month_year_value[of "''2024''" "''01''"]
    by (simp add: isDigit_def parseInt_def parseDigits_def digitVal_def)
  show ?thesis by (simp only: monthIndex.simps a b c d e f simp_thms)
qed

theorem monthIndex_formats_agree_witness:
  "monthIndex (JStr ''Mar 1999'') = Fin 23990
 \<and> monthIndex (JStr ''1999-03'') = Fin 23990
 \<and> monthIndex (JStr ''03/1999'') = Fin 23990"
  using monthIndex_formats_agree[of 1999 2]
  by (simp add: MONTHS3_def pad4_def pad2_def digitChar_def)

text \<open>
  C9. The digit shapes take any two digits as the month: for a year \<open>y\<close> below 10000
  and a number \<open>m\<close> below 100, the year, a dash and the two digits of \<open>m\<close> give
  \<open>y * 12 + (m - 1)\<close>, and so do the two digits, a slash and the year, also when \<open>m\<close>
  is 0 or more than 12. So \<^verbatim>\<open>2024-13\<close> is January 2025, and \<^verbatim>\<open>2024-00\<close> is December
  2023.
\<close>

theorem monthIndex_no_month_range_check:
  assumes "y < 10000" and "m < 100"
  shows "monthIndex (JStr (pad4 y @ ''-'' @ pad2 m)) = Fin (of_int (int y * 12 + (int m - 1)))
       \<and> monthIndex (JStr (pad2 m @ ''/'' @ pad4 y)) = Fin (of_int (int y * 12 + (int m - 1)))
       \<and> monthIndex (JStr ''2024-13'') = monthIndex (JStr ''Jan 2025'')
       \<and> monthIndex (JStr ''2024-00'') = monthIndex (JStr ''Dec 2023'')"
proof -
  have a: "monthIndexStr (pad4 y @ ''-'' @ pad2 m) = Fin (of_int (int y * 12 + (int m - 1)))"
    using year_month_value[of "pad4 y" "pad2 m"] pad4_digits[of y] pad2_digits[of m]
    by (simp add: parseInt_pad4[OF assms(1)] parseInt_pad2[OF assms(2)])
  have b: "monthIndexStr (pad2 m @ ''/'' @ pad4 y) = Fin (of_int (int y * 12 + (int m - 1)))"
    using month_year_value[of "pad4 y" "pad2 m"] pad4_digits[of y] pad2_digits[of m]
    by (simp add: parseInt_pad4[OF assms(1)] parseInt_pad2[OF assms(2)])
  have c1: "monthIndexStr ''2024-13'' = Fin 24300"
    using year_month_value[of "''2024''" "''13''"]
    by (simp add: isDigit_def parseInt_def parseDigits_def digitVal_def)
  have c2: "monthIndexStr ''Jan 2025'' = Fin 24300"
    using abbr_year_value[of "''Jan''" "''2025''"]
    by (simp add: isAlpha_def isDigit_def parseInt_def parseDigits_def digitVal_def
        monthOf_def indexOf_def MONTHS3_def)
  have d1: "monthIndexStr ''2024-00'' = Fin 24287"
    using year_month_value[of "''2024''" "''00''"]
    by (simp add: isDigit_def parseInt_def parseDigits_def digitVal_def)
  have d2: "monthIndexStr ''Dec 2023'' = Fin 24287"
    using abbr_year_value[of "''Dec''" "''2023''"]
    by (simp add: isAlpha_def isDigit_def parseInt_def parseDigits_def digitVal_def
        monthOf_def indexOf_def MONTHS3_def)
  show ?thesis by (simp only: monthIndex.simps a b c1 c2 d1 d2 simp_thms)
qed

theorem monthIndex_no_month_range_check_witness:
  "monthIndex (JStr ''2024-99'') = Fin 24386 \<and> monthIndex (JStr ''99/2024'') = Fin 24386"
  using monthIndex_no_month_range_check[of 2024 99]
  by (simp add: pad4_def pad2_def digitChar_def)

text \<open>
  C4 (as amended). \<^verbatim>\<open>monthIndex\<close> is total, and it gives \<^verbatim>\<open>+Infinity\<close> exactly when its
  argument is not a string, or is a string whose trimmed text has none of the four
  forms: letters, white space and four digits; four digits, a dash and two digits; two
  digits, a slash and four digits; four digits. So \<^verbatim>\<open>Q1\<close> gives \<^verbatim>\<open>+Infinity\<close>. The
  month word is not checked: a word of three letters that is not one of the twelve
  abbreviations counts as month 0, and the result is the year times 12.
\<close>

theorem monthIndex_infinite_iff:
  "(monthIndex (JStr s) = PosInf \<longleftrightarrow> \<not> hasTimeShape (trim s))
 \<and> monthIndex JUndefined = PosInf \<and> monthIndex JNull = PosInf
 \<and> monthIndex (JBool b) = PosInf \<and> monthIndex (JNum n) = PosInf
 \<and> monthIndex (JStr ''Q1'') = PosInf
 \<and> (length w = 3 \<and> list_all isAlpha w \<and> w \<notin> set MONTHS3 \<and> y < 10000
      \<longrightarrow> monthIndex (JStr (w @ '' '' @ pad4 y)) = Fin (of_nat (y * 12)))"
proof -
  have q: "monthIndexStr ''Q1'' = PosInf" by code_simp
  have u: "monthIndexStr (w @ '' '' @ pad4 y) = Fin (of_nat (y * 12))"
    if "length w = 3" "list_all isAlpha w" "w \<notin> set MONTHS3" "y < 10000"
    using abbr_year_value[of w "pad4 y"] that pad4_digits[of y]
    by (simp add: parseInt_pad4 monthOf_unknown)
  show ?thesis
    using monthIndexStr_inf_shape[of s] q u by simp
qed

theorem monthIndex_infinite_iff_witness:
  "\<not> hasTimeShape (trim ''Q1'') \<and> monthIndex (JStr ''Foo 1999'') = Fin 23988"
proof -
  have a: "pad4 1999 = ''1999''" by (simp add: pad4_def digitChar_def)
  have b: "''Foo'' \<notin> set MONTHS3" by (simp add: MONTHS3_def)
  have c: "list_all isAlpha ''Foo''" by (simp add: isAlpha_def)
  have "monthIndex (JStr (''Foo'' @ '' '' @ pad4 1999)) = Fin (of_nat (1999 * 12))"
    using monthIndex_infinite_iff[of s b n "''Foo''" 1999] b c by simp
  then have d: "monthIndex (JStr ''Foo 1999'') = Fin 23988" by (simp add: a)
  have "monthIndex (JStr ''Q1'') = PosInf"
    using monthIndex_infinite_iff[of "''Q1''" b n "''Foo''" 1999] by blast
  then have "\<not> hasTimeShape (trim ''Q1'')"
    using monthIndex_infinite_iff[of "''Q1''" b n "''Foo''" 1999] by blast
  then show ?thesis using d by simp
qed

text \<open>The claim as first stated fails on \<^verbatim>\<open>Xyz 2024\<close>, whose word is neither an
  abbreviation nor a month name, and whose index is finite.\<close>

theorem monthIndex_unknown_word_counterexample:
  "monthIndex (JStr ''Xyz 2024'') = Fin 24288 \<and> ''Xyz'' \<notin> set MONTHS3 \<and> fullTo3 ''Xyz'' = None"
proof -
  have "monthIndexStr ''Xyz 2024'' = Fin 24288" by code_simp
  moreover have "''Xyz'' \<notin> set MONTHS3" by (simp add: MONTHS3_def)
  moreover have "fullTo3 ''Xyz'' = None" by code_simp
  ultimately show ?thesis by simp
qed


section \<open>Results on numbers\<close>

text \<open>
  C3. \<^verbatim>\<open>toNumber\<close> on the text \<^verbatim>\<open>abc\<close>: every character is removed, and
  \<^verbatim>\<open>Number\<close> reads the empty string that is left as 0, a finite number, so the result
  is 0 and not \<^verbatim>\<open>NaN\<close>.
\<close>

theorem toNumber_abc_is_zero:
  "toNumber (JStr ''abc'') = Fin 0"
  by (simp add: cleaned_def isNumChar_def isDigit_def isSpace_def jsNumber_def)

section \<open>Axis resolution: the candidates\<close>





lemma first_filter: "first (filter P xs) = find P xs"
  by (induction xs) (auto simp: first_def)

lemma find_in: "find P xs = Some c \<Longrightarrow> c \<in> set xs \<and> P c"
  by (induction xs) (auto split: if_splits)

lemma yKey_resolveAxes: "yKey (resolveAxes E (sample # rest)) = candidateY sample"
  by (simp add: resolveAxes_def Let_def)

text \<open>What \<^verbatim>\<open>toNumber\<close> keeps of a text, and when nothing is left.\<close>

lemma kept_char:
  "(c \<noteq> CHR '','' \<and> \<not> isSpace c \<and> isNumChar c) \<longleftrightarrow> (isDigit c \<or> c = CHR ''.'' \<or> c = CHR ''-'')"
  by (auto simp: isNumChar_def isSpace_def isDigit_def)

lemma cleaned_alt: "cleaned s = filter (\<lambda>c. isDigit c \<or> c = CHR ''.'' \<or> c = CHR ''-'') s"
proof -
  have "cleaned s = filter (\<lambda>c. c \<noteq> CHR '','' \<and> \<not> isSpace c \<and> isNumChar c) s"
    unfolding cleaned_def by (simp only: filter_filter conj_assoc conj_commute conj_left_commute)
  then show ?thesis by (simp only: kept_char)
qed

lemma cleaned_empty_iff:
  "cleaned s = [] \<longleftrightarrow> list_all (\<lambda>c. \<not> isDigit c \<and> c \<noteq> CHR ''.'' \<and> c \<noteq> CHR ''-'') s"
  unfolding cleaned_alt by (induction s) auto

lemma isFinite_toNumber:
  "\<not> textWithoutNumber v \<Longrightarrow> isFinite (toNumber v) = numericValue v"
proof (cases v)
  case (JStr s)
  assume "\<not> textWithoutNumber v"
  then have ne: "cleaned s \<noteq> []" unfolding JStr textWithoutNumber_def cleaned_empty_iff by simp
  have "isFinite (toNumber (JStr s)) = isFinite (jsNumber (cleaned s))"
    by (cases "jsNumber (cleaned s)") (simp_all add: Let_def)
  then show ?thesis unfolding JStr numericValue_def using ne by simp
qed (simp_all add: numericValue_def)



lemma xKey_resolveAxes:
  "xKey (resolveAxes E (sample # rest)) =
     (if swapNeeded E (sample # rest) (candidateX sample) (candidateSeries sample)
      then candidateSeries sample else candidateX sample)"
  by (simp add: resolveAxes_def Let_def)

lemma seriesKey_resolveAxes:
  "seriesKey (resolveAxes E (sample # rest)) =
     (if swapNeeded E (sample # rest) (candidateX sample) (candidateSeries sample)
      then candidateX sample else candidateSeries sample)"
  by (simp add: resolveAxes_def Let_def)

lemma find_key: "find P xs = Some c \<Longrightarrow> c \<in> set xs"
  using find_in by fastforce

lemma candidateX_key: "isKeyOrNull sample (candidateX sample)"
  unfolding isKeyOrNull_def candidateX_def Let_def orElse_def first_filter truthy_def
  by (auto split: option.splits if_splits dest!: find_key)

lemma candidateSeries_key: "isKeyOrNull sample (candidateSeries sample)"
  unfolding isKeyOrNull_def candidateSeries_def Let_def orElse_def truthy_def
  by (auto split: option.splits if_splits dest!: find_key)

lemma candidateY_key: "isKeyOrNull sample (candidateY sample)"
  unfolding isKeyOrNull_def candidateY_def Let_def orElse_def first_filter truthy_def
  by (auto split: option.splits if_splits dest!: find_key)

lemma candidates_distinct:
  "candidateX sample = None \<or> candidateX sample \<noteq> candidateSeries sample"
  unfolding candidateSeries_def Let_def orElse_def truthy_def
  by (auto split: option.splits if_splits dest!: find_in)

section \<open>Results on axis resolution\<close>

text \<open>
  C7. On the empty result set \<^verbatim>\<open>resolveAxes\<close> gives the three keys as null and
  \<^verbatim>\<open>isMulti\<close> as false.
\<close>

theorem resolveAxes_empty:
  "resolveAxes E [] = \<lparr>xKey = None, seriesKey = None, yKey = None, isMulti = False\<rparr>"
  by (simp add: resolveAxes_def)




text \<open>
  C6. For the single row with \<^verbatim>\<open>category\<close> Shoes, \<^verbatim>\<open>region\<close> West and \<^verbatim>\<open>revenue\<close> 100
  the x axis is \<^verbatim>\<open>region\<close> and the series is \<^verbatim>\<open>category\<close>. In general, when the
  candidate x axis is not time-like, its name matches no geography pattern and the name
  of the candidate series matches one, the two are exchanged.
\<close>

theorem disambiguation_swap:
  "xKey (resolveAxes E [[(''category'', JStr ''Shoes''), (''region'', JStr ''West''),
                         (''revenue'', JNum (Fin 100))]]) = Some ''region''
 \<and> seriesKey (resolveAxes E [[(''category'', JStr ''Shoes''), (''region'', JStr ''West''),
                              (''revenue'', JNum (Fin 100))]]) = Some ''category''
 \<and> (\<not> isTimeLikeAxis E (candidateX sample)
          (map (\<lambda>r. jsget r (keyName (candidateX sample))) (take 20 (sample # rest)))
      \<and> \<not> nameMatches (keyOrEmpty (candidateX sample)) geoPrefs
      \<and> nameMatches (keyOrEmpty (candidateSeries sample)) geoPrefs
    \<longrightarrow> xKey (resolveAxes E (sample # rest)) = candidateSeries sample
      \<and> seriesKey (resolveAxes E (sample # rest)) = candidateX sample)"
proof -
  let ?r = "[(''category'', JStr ''Shoes''), (''region'', JStr ''West''), (''revenue'', JNum (Fin 100))]"
  have x: "candidateX ?r = Some ''region''" by code_simp
  have s: "candidateSeries ?r = Some ''category''" unfolding candidateSeries_def Let_def x by code_simp
  have g: "nameMatches ''region'' geoPrefs" by code_simp
  have n: "\<not> swapNeeded E [?r] (candidateX ?r) (candidateSeries ?r)"
    unfolding x s swapNeeded_def Let_def keyOrEmpty_def orElse_def truthy_def using g by simp
  have 1: "xKey (resolveAxes E [?r]) = Some ''region''"
    unfolding xKey_resolveAxes using n x by simp
  have 2: "seriesKey (resolveAxes E [?r]) = Some ''category''"
    unfolding seriesKey_resolveAxes using n s by simp
  have 3: "xKey (resolveAxes E (sample # rest)) = candidateSeries sample
      \<and> seriesKey (resolveAxes E (sample # rest)) = candidateX sample"
    if "\<not> isTimeLikeAxis E (candidateX sample)
          (map (\<lambda>r. jsget r (keyName (candidateX sample))) (take 20 (sample # rest)))"
       "\<not> nameMatches (keyOrEmpty (candidateX sample)) geoPrefs"
       "nameMatches (keyOrEmpty (candidateSeries sample)) geoPrefs"
  proof -
    have "swapNeeded E (sample # rest) (candidateX sample) (candidateSeries sample)"
      unfolding swapNeeded_def Let_def using that by blast
    then show ?thesis unfolding xKey_resolveAxes seriesKey_resolveAxes by simp
  qed
  show ?thesis using 1 2 3 by blast
qed

theorem disambiguation_swap_witness:
  "candidateX [(''updated_by'', JStr ''Ann-Marie''), (''region'', JStr ''West''), (''revenue'', JNum (Fin 100))]
     = Some ''updated_by''
 \<and> candidateSeries [(''updated_by'', JStr ''Ann-Marie''), (''region'', JStr ''West''), (''revenue'', JNum (Fin 100))]
     = Some ''region''
 \<and> xKey (resolveAxes plainEnv [[(''updated_by'', JStr ''Ann-Marie''), (''region'', JStr ''West''),
                                  (''revenue'', JNum (Fin 100))]]) = Some ''region''
 \<and> seriesKey (resolveAxes plainEnv [[(''updated_by'', JStr ''Ann-Marie''), (''region'', JStr ''West''),
                                  (''revenue'', JNum (Fin 100))]]) = Some ''updated_by''"
proof -
  let ?r = "[(''updated_by'', JStr ''Ann-Marie''), (''region'', JStr ''West''), (''revenue'', JNum (Fin 100))]"
  have x: "candidateX ?r = Some ''updated_by''" by code_simp
  have s: "candidateSeries ?r = Some ''region''" unfolding candidateSeries_def Let_def x by code_simp
  have t: "\<not> isTimeLikeAxis plainEnv (Some ''updated_by'') [JStr ''Ann-Marie'']" by code_simp
  have g1: "\<not> nameMatches ''updated_by'' geoPrefs" by code_simp
  have g2: "nameMatches ''region'' geoPrefs" by code_simp
  have k: "keyOrEmpty (Some ''updated_by'') = ''updated_by''" "keyOrEmpty (Some ''region'') = ''region''"
    "jsget ?r (keyName (Some ''updated_by'')) = JStr ''Ann-Marie''"
    by (simp_all add: keyOrEmpty_def orElse_def truthy_def keyName_def jsget_def)
  show ?thesis
    using disambiguation_swap[of plainEnv ?r "[]"] t g1 g2
    by (simp add: x s k)
qed

text \<open>
  C10. For a non-empty result set each of the three resolved keys is null or a key of
  the first row, and when the x axis and the series are both not null they are
  different columns.
\<close>

theorem resolveAxes_keys:
  "isKeyOrNull sample (xKey (resolveAxes E (sample # rest)))
 \<and> isKeyOrNull sample (seriesKey (resolveAxes E (sample # rest)))
 \<and> isKeyOrNull sample (yKey (resolveAxes E (sample # rest)))
 \<and> (xKey (resolveAxes E (sample # rest)) \<noteq> None
      \<and> seriesKey (resolveAxes E (sample # rest)) \<noteq> None
    \<longrightarrow> xKey (resolveAxes E (sample # rest)) \<noteq> seriesKey (resolveAxes E (sample # rest)))"
  unfolding xKey_resolveAxes seriesKey_resolveAxes yKey_resolveAxes
  using candidateX_key[of sample] candidateSeries_key[of sample] candidateY_key[of sample]
    candidates_distinct[of sample]
  by (cases "swapNeeded E (sample # rest) (candidateX sample) (candidateSeries sample)") auto

theorem resolveAxes_keys_witness:
  "xKey (resolveAxes plainEnv [[(''month'', JStr ''January''), (''region'', JStr ''North''),
                                (''revenue'', JNum (Fin 10))]]) = Some ''month''
 \<and> seriesKey (resolveAxes plainEnv [[(''month'', JStr ''January''), (''region'', JStr ''North''),
                                (''revenue'', JNum (Fin 10))]]) = Some ''region''
 \<and> isKeyOrNull [(''month'', JStr ''January''), (''region'', JStr ''North''), (''revenue'', JNum (Fin 10))]
      (yKey (resolveAxes plainEnv [[(''month'', JStr ''January''), (''region'', JStr ''North''),
                                (''revenue'', JNum (Fin 10))]]))"
proof -
  let ?r = "[(''month'', JStr ''January''), (''region'', JStr ''North''), (''revenue'', JNum (Fin 10))]"
  have e: "resolveAxes plainEnv [?r]
     = \<lparr>xKey = Some ''month'', seriesKey = Some ''region'', yKey = Some ''revenue'', isMulti = True\<rparr>"
    by code_simp
  show ?thesis
    using resolveAxes_keys[of ?r plainEnv "[]"] unfolding e by simp
qed


section \<open>Sorting and pivoting: auxiliary facts\<close>

lemma set_insertBy: "set (insertBy cmp x ys) = insert x (set ys)"
  by (induction ys) auto

lemma set_sortBy: "set (sortBy cmp xs) = set xs"
  unfolding sortBy_def by (induction xs) (auto simp: set_insertBy)

lemma length_insertBy: "length (insertBy cmp x ys) = Suc (length ys)"
  by (induction ys) auto

lemma length_sortBy: "length (sortBy cmp xs) = length xs"
  unfolding sortBy_def by (induction xs) (auto simp: length_insertBy)

lemma sortBy_Cons: "sortBy cmp (x # xs) = insertBy cmp x (sortBy cmp xs)"
  by (simp add: sortBy_def)

lemma insertBy_skip:
  "list_all (\<lambda>a. cmp x a > 0) A \<Longrightarrow> insertBy cmp x (A @ B) = A @ insertBy cmp x B"
  by (induction A) auto

lemma insertBy_stop:
  "B = [] \<or> cmp x (hd B) \<le> 0 \<Longrightarrow> insertBy cmp x (A @ B) = insertBy cmp x A @ B"
  by (induction A) (auto; cases B; auto)+

lemma insertBy_cong:
  "list_all (\<lambda>a. cmp x a = cmp' x a) A \<Longrightarrow> insertBy cmp x A = insertBy cmp' x A"
  by (induction A) auto

lemma undefined_not_finite: "\<not> finiteIdx E JUndefined"
  unfolding finiteIdx_def idxOf_def by code_simp

lemma cmp_fin_fin:
  "finiteIdx E a \<Longrightarrow> finiteIdx E b \<Longrightarrow> sortCompare (compareX E) a b = byIndex E a b"
  using undefined_not_finite[of E]
  unfolding finiteIdx_def idxOf_def sortCompare_def compareX_def byIndex_def idxVal_def
  by (cases "monthIndex (JStr (jsString E a))"; cases "monthIndex (JStr (jsString E b))") auto

lemma cmp_fin_other:
  "finiteIdx E a \<Longrightarrow> \<not> finiteIdx E b \<Longrightarrow> sortCompare (compareX E) a b = - 1"
  using undefined_not_finite[of E]
  unfolding finiteIdx_def idxOf_def sortCompare_def compareX_def
  by (cases "monthIndex (JStr (jsString E a))"; cases "monthIndex (JStr (jsString E b))") auto

lemma cmp_other_fin:
  "\<not> finiteIdx E a \<Longrightarrow> finiteIdx E b \<Longrightarrow> sortCompare (compareX E) a b = 1"
  using undefined_not_finite[of E]
  unfolding finiteIdx_def idxOf_def sortCompare_def compareX_def
  by (cases "monthIndex (JStr (jsString E a))"; cases "monthIndex (JStr (jsString E b))") auto

lemma cmp_text_text:
  "otherText E a \<Longrightarrow> otherText E b \<Longrightarrow> sortCompare (compareX E) a b = byLocale E a b"
  unfolding otherText_def finiteIdx_def idxOf_def sortCompare_def compareX_def byLocale_def
  by (cases "monthIndex (JStr (jsString E a))"; cases "monthIndex (JStr (jsString E b))") auto

lemma cmp_undefined:
  "a \<noteq> JUndefined \<Longrightarrow> sortCompare cmp a JUndefined = - 1"
  "a \<noteq> JUndefined \<Longrightarrow> sortCompare cmp JUndefined a = 1"
  "sortCompare cmp JUndefined JUndefined = 0"
  by (simp_all add: sortCompare_def)

lemma insert_undefined:
  "list_all (\<lambda>a. a = JUndefined) U \<Longrightarrow> insertBy (sortCompare cmp) JUndefined U = JUndefined # U"
  by (cases U) (auto simp: sortCompare_def)

lemma orderXs_blocks:
  "orderXs E xs =
     sortBy (byIndex E) (filter (finiteIdx E) xs)
     @ sortBy (byLocale E) (filter (otherText E) xs)
     @ filter (\<lambda>a. a = JUndefined) xs"
proof (induction xs)
  case Nil
  show ?case by (simp add: orderXs_def jsSort_def sortBy_def)
next
  case (Cons x xs)
  let ?c = "sortCompare (compareX E)"
  let ?F = "sortBy (byIndex E) (filter (finiteIdx E) xs)"
  let ?T = "sortBy (byLocale E) (filter (otherText E) xs)"
  let ?U = "filter (\<lambda>a. a = JUndefined) xs"
  have ih: "sortBy ?c xs = ?F @ ?T @ ?U"
    using Cons.IH by (simp add: orderXs_def jsSort_def)
  have step: "orderXs E (x # xs) = insertBy ?c x (?F @ ?T @ ?U)"
    by (simp add: orderXs_def jsSort_def sortBy_Cons ih)
  have F: "finiteIdx E a" if "a \<in> set ?F" for a using that by (simp add: set_sortBy)
  have T: "otherText E a" if "a \<in> set ?T" for a using that by (simp add: set_sortBy)
  have U: "a = JUndefined" if "a \<in> set ?U" for a using that by simp
  have T': "\<not> finiteIdx E a \<and> a \<noteq> JUndefined" if "a \<in> set ?T" for a
    using T[OF that] by (simp add: otherText_def)
  consider (time) "finiteIdx E x" | (word) "otherText E x" | (undef) "x = JUndefined"
    unfolding otherText_def by blast
  then show ?case
  proof cases
    case time
    have nu: "x \<noteq> JUndefined" using time undefined_not_finite by blast
    have "?T @ ?U = [] \<or> ?c x (hd (?T @ ?U)) \<le> 0"
    proof (cases "?T @ ?U")
      case Nil
      then show ?thesis by simp
    next
      case (Cons b bs)
      then have "b \<in> set (?T @ ?U)" by simp
      then have "b \<in> set ?T \<or> b \<in> set ?U" by (simp only: set_append Un_iff)
      then have "\<not> finiteIdx E b"
        using T' U undefined_not_finite by blast
      then have "?c x b = - 1" using time by (rule cmp_fin_other[rotated])
      then show ?thesis by (simp only: Cons list.sel) simp
    qed
    then have "insertBy ?c x (?F @ ?T @ ?U) = insertBy ?c x ?F @ ?T @ ?U"
      by (rule insertBy_stop)
    moreover have "insertBy ?c x ?F = insertBy (byIndex E) x ?F"
    proof (rule insertBy_cong)
      show "list_all (\<lambda>a. ?c x a = byIndex E x a) ?F"
        unfolding list_all_iff using F time cmp_fin_fin by blast
    qed
    moreover have "filter (finiteIdx E) (x # xs) = x # filter (finiteIdx E) xs"
      "filter (otherText E) (x # xs) = filter (otherText E) xs"
      "filter (\<lambda>a. a = JUndefined) (x # xs) = ?U"
      using time nu by (simp_all add: otherText_def)
    ultimately show ?thesis
      unfolding step by (simp only: sortBy_Cons)
  next
    case word
    have nf: "\<not> finiteIdx E x" and nu: "x \<noteq> JUndefined" using word by (auto simp: otherText_def)
    have "?c x a > 0" if "a \<in> set ?F" for a
      using cmp_other_fin[OF nf F[OF that]] by simp
    then have "list_all (\<lambda>a. ?c x a > 0) ?F"
      unfolding list_all_iff by blast
    then have 1: "insertBy ?c x (?F @ ?T @ ?U) = ?F @ insertBy ?c x (?T @ ?U)"
      by (rule insertBy_skip)
    have "?U = [] \<or> ?c x (hd ?U) \<le> 0"
    proof (cases ?U)
      case Nil
      then show ?thesis by simp
    next
      case (Cons b bs)
      then have "b \<in> set ?U" by simp
      then have "b = JUndefined" by (rule U)
      then have "?c x b = - 1" using nu by (simp add: cmp_undefined)
      then show ?thesis by (simp only: Cons list.sel) simp
    qed
    then have 2: "insertBy ?c x (?T @ ?U) = insertBy ?c x ?T @ ?U"
      by (rule insertBy_stop)
    have 3: "insertBy ?c x ?T = insertBy (byLocale E) x ?T"
    proof (rule insertBy_cong)
      show "list_all (\<lambda>a. ?c x a = byLocale E x a) ?T"
        unfolding list_all_iff using T word cmp_text_text by blast
    qed
    have 4: "filter (finiteIdx E) (x # xs) = filter (finiteIdx E) xs"
      "filter (otherText E) (x # xs) = x # filter (otherText E) xs"
      "filter (\<lambda>a. a = JUndefined) (x # xs) = ?U"
      using word nf nu by simp_all
    show ?thesis
      unfolding step 1 2 3 4 by (simp only: sortBy_Cons)
  next
    case undef
    have nf: "\<not> finiteIdx E x" using undef undefined_not_finite by simp
    have "?c x a > 0" if "a \<in> set (?F @ ?T)" for a
    proof -
      have "a \<in> set ?F \<or> a \<in> set ?T" using that by (simp only: set_append Un_iff)
      then have "a \<noteq> JUndefined" using F T' undefined_not_finite by blast
      then show ?thesis unfolding undef by (simp add: cmp_undefined)
    qed
    then have "list_all (\<lambda>a. ?c x a > 0) (?F @ ?T)"
      unfolding list_all_iff by blast
    then have 1: "insertBy ?c x ((?F @ ?T) @ ?U) = (?F @ ?T) @ insertBy ?c x ?U"
      by (rule insertBy_skip)
    have "list_all (\<lambda>a. a = JUndefined) ?U" by (simp add: list_all_iff)
    then have 2: "insertBy ?c x ?U = x # ?U" unfolding undef by (rule insert_undefined)
    have 4: "filter (finiteIdx E) (x # xs) = filter (finiteIdx E) xs"
      "filter (otherText E) (x # xs) = filter (otherText E) xs"
      "filter (\<lambda>a. a = JUndefined) (x # xs) = x # ?U"
      using undef nf by (simp_all add: otherText_def)
    show ?thesis
      unfolding step 4 using 1 2 by simp
  qed
qed

lemma sorted_insertBy:
  assumes total: "\<And>a b. cmp a b \<le> 0 \<or> cmp b a \<le> 0"
    and trans: "\<And>a b c. cmp a b \<le> 0 \<Longrightarrow> cmp b c \<le> 0 \<Longrightarrow> cmp a c \<le> 0"
  shows "sorted_wrt (\<lambda>a b. cmp a b \<le> 0) ys \<Longrightarrow> sorted_wrt (\<lambda>a b. cmp a b \<le> 0) (insertBy cmp x ys)"
proof (induction ys)
  case Nil
  show ?case by simp
next
  case (Cons y ys)
  show ?case
  proof (cases "cmp x y \<le> 0")
    case True
    then have "\<forall>z\<in>set ys. cmp x z \<le> 0" using Cons.prems trans by auto
    then show ?thesis using True Cons.prems by simp
  next
    case False
    then have "cmp y x \<le> 0" using total by blast
    then show ?thesis using False Cons by (auto simp: set_insertBy)
  qed
qed

lemma sorted_sortBy:
  assumes total: "\<And>a b. cmp a b \<le> 0 \<or> cmp b a \<le> 0"
    and trans: "\<And>a b c. cmp a b \<le> 0 \<Longrightarrow> cmp b c \<le> 0 \<Longrightarrow> cmp a c \<le> 0"
  shows "sorted_wrt (\<lambda>a b. cmp a b \<le> 0) (sortBy cmp xs)"
proof (induction xs)
  case Nil
  show ?case by (simp add: sortBy_def)
next
  case (Cons x xs)
  show ?case unfolding sortBy_Cons using sorted_insertBy[OF total trans Cons] .
qed

lemma sorted_byIndex: "sorted_wrt (\<lambda>a b. idxVal E a \<le> idxVal E b) (sortBy (byIndex E) xs)"
proof -
  have "sorted_wrt (\<lambda>a b. byIndex E a b \<le> 0) (sortBy (byIndex E) xs)"
    by (rule sorted_sortBy) (auto simp: byIndex_def)
  then show ?thesis by (simp add: byIndex_def)
qed

lemma set_orderXs: "set (orderXs E xs) = set xs"
  by (simp add: orderXs_def jsSort_def set_sortBy)

lemma length_orderXs: "length (orderXs E xs) = length xs"
  by (simp add: orderXs_def jsSort_def length_sortBy)

lemma codeUnitCompare_total: "codeUnitCompare a b \<le> 0 \<or> codeUnitCompare b a \<le> 0"
  by (induction a b rule: codeUnitCompare.induct) auto

lemma codeUnitCompare_trans:
  "codeUnitCompare a b \<le> 0 \<Longrightarrow> codeUnitCompare b c \<le> 0 \<Longrightarrow> codeUnitCompare a c \<le> 0"
proof (induction a b arbitrary: c rule: codeUnitCompare.induct)
  case 1
  then show ?case by simp
next
  case (2 b bs)
  then show ?case by (cases c) auto
next
  case (3 a as)
  then show ?case by simp
next
  case (4 a as b bs)
  show ?case
  proof (cases c)
    case Nil
    then show ?thesis using 4 by (auto split: if_splits)
  next
    case (Cons d ds)
    show ?thesis
    proof (cases "(of_char a :: nat) < of_char b")
      case True
      then show ?thesis using 4(3) Cons by (auto split: if_splits)
    next
      case False
      then have eq: "(of_char a :: nat) = of_char b" and r: "codeUnitCompare as bs \<le> 0"
        using 4(2) by (auto split: if_splits)
      show ?thesis
      proof (cases "(of_char b :: nat) < of_char d")
        case True
        then show ?thesis using eq Cons by simp
      next
        case nd: False
        then have eq2: "(of_char b :: nat) = of_char d" and r2: "codeUnitCompare bs ds \<le> 0"
          using 4(3) Cons by (auto split: if_splits)
        have "codeUnitCompare as ds \<le> 0" using 4(1)[OF _ _ r r2] False eq by simp
        then show ?thesis using eq eq2 Cons by simp
      qed
    qed
  qed
qed

lemma set_firstSeen: "set (firstSeen xs) = set xs"
  by (induction xs) auto

lemma distinct_firstSeen: "distinct (firstSeen xs)"
  by (induction xs) (auto simp: set_firstSeen)

lemma firstSeen_snoc: "firstSeen (xs @ [x]) = setAdd (firstSeen xs) x"
  by (induction xs) (auto simp: setAdd_def set_firstSeen)

lemma map_of_insertKey:
  "k \<notin> fst ` set obj \<Longrightarrow>
     map_of (insertKey k v obj) k' = (if k' = k then Some v else map_of obj k')"
proof (induction obj)
  case Nil
  show ?case by simp
next
  case (Cons a obj)
  obtain k1 v1 where a: "a = (k1, v1)" by (cases a)
  have ne: "k1 \<noteq> k" and ih: "map_of (insertKey k v obj) k' = (if k' = k then Some v else map_of obj k')"
    using Cons by (auto simp: a)
  show ?case
  proof (cases "isArrayIndex k \<and> (\<not> isArrayIndex k1 \<or> parseDigits k < parseDigits k1)")
    case True
    have "insertKey k v (a # obj) = (k, v) # a # obj"
      unfolding a by (simp only: insertKey.simps True if_True simp_thms)
    then show ?thesis by simp
  next
    case False
    have e: "insertKey k v (a # obj) = a # insertKey k v obj"
      unfolding a by (simp only: insertKey.simps False if_False simp_thms)
    show ?thesis unfolding e a using ne ih by auto
  qed
qed

lemma map_of_replace:
  "map_of (map (\<lambda>(k', v'). if k' = k then (k', v) else (k', v')) m) j
     = (if j = k \<and> k \<in> fst ` set m then Some v else map_of m j)"
proof (induction m)
  case Nil
  show ?case by simp
next
  case (Cons a m)
  obtain k1 v1 where a: "a = (k1, v1)" by (cases a)
  show ?case
  proof (cases "k1 = k")
    case True
    then show ?thesis using Cons by (simp add: a)
  next
    case False
    then show ?thesis using Cons by (cases "j = k") (simp_all add: a)
  qed
qed

lemma map_of_jsset:
  "map_of (jsset obj k v) j
     = (if j = k \<and> (k \<in> fst ` set obj \<or> k \<noteq> ''__proto__'') then Some v else map_of obj j)"
proof (cases "k \<in> fst ` set obj")
  case True
  then have "jsset obj k v = map (\<lambda>(k', v'). if k' = k then (k', v) else (k', v')) obj"
    by (simp add: jsset_def)
  then show ?thesis using True by (simp only: map_of_replace) simp
next
  case False
  show ?thesis
  proof (cases "k = ''__proto__''")
    case True
    then have "jsset obj k v = obj" using False unfolding jsset_def by (simp only: set_map) simp
    then show ?thesis using False True by (simp only:) simp
  next
    case nk: False
    have "jsset obj k v = insertKey k v obj"
      using False nk unfolding jsset_def by (simp only: set_map) simp
    then show ?thesis using nk map_of_insertKey[OF False, of v j] by (simp only:) simp
  qed
qed

lemma map_of_mapSet:
  "map_of (mapSet m k v) j = (if j = k then Some v else map_of m j)"
proof (cases "k \<in> fst ` set m")
  case True
  then show ?thesis unfolding mapSet_def mapHas_def by (simp add: map_of_replace)
next
  case False
  then have "map_of m k = None" by (simp add: map_of_eq_None_iff)
  then show ?thesis using False unfolding mapSet_def mapHas_def
    by (cases "j = k") (auto simp: map_add_def split: option.splits)
qed

lemma keys_mapSet:
  "map fst (mapSet m k v) = (if k \<in> fst ` set m then map fst m else map fst m @ [k])"
proof -
  have "map fst (map (\<lambda>(k', v'). if k' = k then (k', v) else (k', v')) m) = map fst m"
    by (induction m) auto
  then show ?thesis unfolding mapSet_def mapHas_def by simp
qed

lemma mapGet_mapSet: "mapGet (mapSet m k v) j = (if j = k then v else mapGet m j)"
  by (simp add: mapGet_def map_of_mapSet)

lemma pivotLoop_snoc:
  "pivotLoop E xk sk yk (rows @ [r]) = pivotStep E xk sk yk (pivotLoop E xk sk yk rows) r"
  by (simp add: pivotLoop_def)

lemma lastWrite_snoc:
  "lastWrite E (rows @ [r]) xk sk x k =
     (if jsget r xk = x \<and> jsString E (jsget r sk) = k then Some r else lastWrite E rows xk sk x k)"
  by (simp add: lastWrite_def)

lemma lastWrite_absent:
  "x \<notin> (\<lambda>r. jsget r xk) ` set rows \<Longrightarrow> lastWrite E rows xk sk x k = None"
  unfolding lastWrite_def by (auto simp: find_None_iff)

text \<open>The metric that \<^verbatim>\<open>pivotData\<close> stores: a text without a digit, a period or a
  minus sign gives 0 like every other value that is not numeric.\<close>

lemma metricOf_numeric:
  "metricOf r yk = JNum (if numericValue (jsget r yk) then toNumber (jsget r yk) else Fin 0)"
proof (cases "textWithoutNumber (jsget r yk)")
  case True
  then obtain s where v: "jsget r yk = JStr s" and "cleaned s = []"
    unfolding textWithoutNumber_def cleaned_empty_iff by (cases "jsget r yk") simp_all
  then have "toNumber (jsget r yk) = Fin 0" "\<not> numericValue (jsget r yk)"
    by (simp_all add: jsNumber_def numericValue_def)
  then show ?thesis by (simp add: metricOf_def)
next
  case False
  then have "isFinite (toNumber (jsget r yk)) = numericValue (jsget r yk)"
    by (rule isFinite_toNumber)
  then show ?thesis by (simp add: metricOf_def Let_def)
qed

lemma cell_xk_some: "cell E rows xk sk yk x xk \<noteq> None"
  unfolding cell_def by (auto split: option.splits)

lemma cell_snoc:
  "cell E (rows @ [r]) xk sk yk x k =
     (if jsget r xk = x \<and> jsString E (jsget r sk) = k \<and> \<not> (k = ''__proto__'' \<and> xk \<noteq> ''__proto__'')
      then Some (metricOf r yk) else cell E rows xk sk yk x k)"
proof (cases "k = ''__proto__'' \<and> xk \<noteq> ''__proto__''")
  case True
  have e: "cell E (rows @ [r]) xk sk yk x k = None" "cell E rows xk sk yk x k = None"
    unfolding cell_def if_P[OF True] by (rule refl)+
  have n: "\<not> (jsget r xk = x \<and> jsString E (jsget r sk) = k
              \<and> \<not> (k = ''__proto__'' \<and> xk \<noteq> ''__proto__''))"
    using True by blast
  show ?thesis unfolding if_not_P[OF n] e by (rule refl)
next
  case False
  have c: "cell E rs xk sk yk x k =
     (case lastWrite E rs xk sk x k of
        Some r \<Rightarrow> Some (metricOf r yk)
      | None \<Rightarrow> if k = xk then Some x else None)" for rs
    unfolding cell_def if_not_P[OF False] metricOf_numeric by (rule refl)
  show ?thesis
  proof (cases "jsget r xk = x \<and> jsString E (jsget r sk) = k")
    case m: True
    have "lastWrite E (rows @ [r]) xk sk x k = Some r"
      unfolding lastWrite_snoc by (rule if_P) (rule m)
    then have e: "cell E (rows @ [r]) xk sk yk x k = Some (metricOf r yk)"
      by (simp only: c option.case)
    have y: "jsget r xk = x \<and> jsString E (jsget r sk) = k
              \<and> \<not> (k = ''__proto__'' \<and> xk \<noteq> ''__proto__'')"
      using m False by blast
    show ?thesis unfolding if_P[OF y] by (rule e)
  next
    case m: False
    have "lastWrite E (rows @ [r]) xk sk x k = lastWrite E rows xk sk x k"
      unfolding lastWrite_snoc by (rule if_not_P) (rule m)
    then have e: "cell E (rows @ [r]) xk sk yk x k = cell E rows xk sk yk x k"
      by (simp only: c)
    have n: "\<not> (jsget r xk = x \<and> jsString E (jsget r sk) = k
              \<and> \<not> (k = ''__proto__'' \<and> xk \<noteq> ''__proto__''))"
      using m by blast
    show ?thesis unfolding if_not_P[OF n] by (rule e)
  qed
qed

lemma cell_fresh:
  assumes "x \<notin> (\<lambda>r. jsget r xk) ` set rows"
  shows "cell E rows xk sk yk x k = map_of [(xk, x)] k"
proof (cases "k = ''__proto__'' \<and> xk \<noteq> ''__proto__''")
  case True
  then have "cell E rows xk sk yk x k = None" unfolding cell_def by (rule if_P)
  moreover have "k \<noteq> xk" using True by blast
  ultimately show ?thesis by simp
next
  case False
  have "cell E rows xk sk yk x k = (if k = xk then Some x else None)"
    unfolding cell_def lastWrite_absent[OF assms] if_not_P[OF False] by (simp only: option.case)
  then show ?thesis by simp
qed

lemma obj_update:
  assumes obj: "\<And>j. map_of obj j = cell E rows xk sk yk x0 j" and r: "jsget r xk = x0"
  shows "map_of (jsset obj (jsString E (jsget r sk)) (metricOf r yk)) k
           = cell E (rows @ [r]) xk sk yk x0 k"
proof -
  let ?k0 = "jsString E (jsget r sk)"
  let ?v = "metricOf r yk"
  let ?P = "?k0 = ''__proto__'' \<and> xk \<noteq> ''__proto__''"
  have keys: "?k0 \<in> fst ` set obj \<longleftrightarrow> cell E rows xk sk yk x0 ?k0 \<noteq> None"
    using obj[of ?k0] map_of_eq_None_iff[of obj ?k0] by auto
  show ?thesis
  proof (cases "k = ?k0")
    case False
    then have 1: "map_of (jsset obj ?k0 ?v) k = map_of obj k"
      unfolding map_of_jsset by simp
    have n: "\<not> (jsget r xk = x0 \<and> ?k0 = k \<and> \<not> (k = ''__proto__'' \<and> xk \<noteq> ''__proto__''))"
      using False by blast
    have 2: "cell E (rows @ [r]) xk sk yk x0 k = cell E rows xk sk yk x0 k"
      unfolding cell_snoc if_not_P[OF n] by (rule refl)
    show ?thesis unfolding 1 2 by (rule obj)
  next
    case True
    show ?thesis
    proof (cases ?P)
      case p: True
      have "cell E rows xk sk yk x0 ?k0 = None" unfolding cell_def by (rule if_P) (rule p)
      then have nk: "?k0 \<notin> fst ` set obj" using keys by simp
      have c: "\<not> (k = ?k0 \<and> (?k0 \<in> fst ` set obj \<or> ?k0 \<noteq> ''__proto__''))"
        using nk p by blast
      have 1: "map_of (jsset obj ?k0 ?v) k = map_of obj k"
        unfolding map_of_jsset if_not_P[OF c] by (rule refl)
      have n: "\<not> (jsget r xk = x0 \<and> ?k0 = k \<and> \<not> (k = ''__proto__'' \<and> xk \<noteq> ''__proto__''))"
        using p True by auto
      have 2: "cell E (rows @ [r]) xk sk yk x0 k = cell E rows xk sk yk x0 k"
        unfolding cell_snoc if_not_P[OF n] by (rule refl)
      show ?thesis unfolding 1 2 by (rule obj)
    next
      case p: False
      have "?k0 \<in> fst ` set obj \<or> ?k0 \<noteq> ''__proto__''"
      proof (cases "?k0 = ''__proto__''")
        case True
        then have "?k0 = xk" using p by auto
        then have "cell E rows xk sk yk x0 ?k0 \<noteq> None" using cell_xk_some[of E rows xk sk yk x0] by simp
        then show ?thesis using keys by blast
      next
        case False
        then show ?thesis by blast
      qed
      then have c: "k = ?k0 \<and> (?k0 \<in> fst ` set obj \<or> ?k0 \<noteq> ''__proto__'')"
        using True by blast
      have 1: "map_of (jsset obj ?k0 ?v) k = Some ?v"
        unfolding map_of_jsset if_P[OF c] by (rule refl)
      have y: "jsget r xk = x0 \<and> ?k0 = k \<and> \<not> (k = ''__proto__'' \<and> xk \<noteq> ''__proto__'')"
        using r True p by auto
      have 2: "cell E (rows @ [r]) xk sk yk x0 k = Some ?v"
        unfolding cell_snoc if_P[OF y] by (rule refl)
      show ?thesis unfolding 1 2 by (rule refl)
    qed
  qed
qed

lemma pivotLoop_inv:
  "xSet (pivotLoop E xk sk yk rows) = firstSeen (map (\<lambda>r. jsget r xk) rows)
 \<and> seriesSet (pivotLoop E xk sk yk rows) = firstSeen (map (\<lambda>r. jsget r sk) rows)
 \<and> map fst (wide (pivotLoop E xk sk yk rows)) = firstSeen (map (\<lambda>r. jsget r xk) rows)
 \<and> (\<forall>x k. x \<in> (\<lambda>r. jsget r xk) ` set rows \<longrightarrow>
       map_of (mapGet (wide (pivotLoop E xk sk yk rows)) x) k = cell E rows xk sk yk x k)"
proof (induction rows rule: rev_induct)
  case Nil
  show ?case by (simp add: pivotLoop_def)
next
  case (snoc r rows)
  let ?st = "pivotLoop E xk sk yk rows"
  let ?x0 = "jsget r xk"
  let ?xs = "map (\<lambda>r. jsget r xk) rows"
  let ?m1 = "if \<not> mapHas (wide ?st) ?x0 then mapSet (wide ?st) ?x0 [(xk, ?x0)] else wide ?st"
  let ?obj = "mapGet ?m1 ?x0"
  let ?m2 = "mapSet ?m1 ?x0 (jsset ?obj (jsString E (jsget r sk)) (metricOf r yk))"
  have ih1: "xSet ?st = firstSeen ?xs"
    and ih2: "seriesSet ?st = firstSeen (map (\<lambda>r. jsget r sk) rows)"
    and ih3: "map fst (wide ?st) = firstSeen ?xs"
    and ih4: "\<And>x k. x \<in> (\<lambda>r. jsget r xk) ` set rows \<Longrightarrow>
                 map_of (mapGet (wide ?st) x) k = cell E rows xk sk yk x k"
    using snoc.IH by blast+
  have st: "pivotLoop E xk sk yk (rows @ [r])
      = \<lparr>xSet = setAdd (xSet ?st) ?x0, seriesSet = setAdd (seriesSet ?st) (jsget r sk), wide = ?m2\<rparr>"
    unfolding pivotLoop_snoc pivotStep_def Let_def by (rule refl)
  have keys: "fst ` set (wide ?st) = set ?xs"
    using ih3 by (metis set_firstSeen set_map)
  have has: "mapHas (wide ?st) ?x0 \<longleftrightarrow> ?x0 \<in> set ?xs"
    unfolding mapHas_def using keys by simp
  have a: "xSet (pivotLoop E xk sk yk (rows @ [r])) = firstSeen (map (\<lambda>r. jsget r xk) (rows @ [r]))"
    unfolding st by (simp add: ih1 firstSeen_snoc)
  have b: "seriesSet (pivotLoop E xk sk yk (rows @ [r])) = firstSeen (map (\<lambda>r. jsget r sk) (rows @ [r]))"
    unfolding st by (simp add: ih2 firstSeen_snoc)
  have k1: "map fst ?m1 = setAdd (firstSeen ?xs) ?x0"
  proof (cases "?x0 \<in> set ?xs")
    case True
    then show ?thesis using has ih3 by (simp add: setAdd_def set_firstSeen)
  next
    case False
    then have "?x0 \<notin> fst ` set (wide ?st)" using keys by simp
    then show ?thesis using has False ih3 by (simp add: keys_mapSet setAdd_def set_firstSeen)
  qed
  have "?x0 \<in> fst ` set ?m1"
    using k1 by (metis list.set_map setAdd_def in_set_conv_decomp append_Nil2 set_append Un_iff list.set_intros(1))
  then have k2: "map fst ?m2 = map fst ?m1" by (simp only: keys_mapSet if_True)
  have c: "map fst (wide (pivotLoop E xk sk yk (rows @ [r]))) = firstSeen (map (\<lambda>r. jsget r xk) (rows @ [r]))"
    unfolding st using k1 k2 by (simp add: firstSeen_snoc)
  have objc: "map_of ?obj j = cell E rows xk sk yk ?x0 j" for j
  proof (cases "?x0 \<in> set ?xs")
    case True
    then have "?obj = mapGet (wide ?st) ?x0" using has by simp
    then show ?thesis using ih4[of ?x0 j] True by simp
  next
    case False
    then have "?obj = [(xk, ?x0)]" using has by (simp add: mapGet_mapSet)
    moreover have "?x0 \<notin> (\<lambda>r. jsget r xk) ` set rows" using False by simp
    ultimately show ?thesis using cell_fresh[of ?x0 xk rows E sk yk j] by simp
  qed
  have d: "map_of (mapGet ?m2 x) k = cell E (rows @ [r]) xk sk yk x k"
    if x: "x \<in> (\<lambda>r. jsget r xk) ` set (rows @ [r])" for x k
  proof (cases "x = ?x0")
    case True
    have "mapGet ?m2 x = jsset ?obj (jsString E (jsget r sk)) (metricOf r yk)"
      unfolding True mapGet_mapSet by simp
    then show ?thesis
      using obj_update[of ?obj E rows xk sk yk ?x0 r k, OF objc refl] True by simp
  next
    case False
    then have xin: "x \<in> (\<lambda>r. jsget r xk) ` set rows" using x by auto
    have "mapGet ?m2 x = mapGet ?m1 x" using False by (simp only: mapGet_mapSet if_False)
    also have "\<dots> = mapGet (wide ?st) x" using False by (simp add: mapGet_mapSet)
    finally have 1: "mapGet ?m2 x = mapGet (wide ?st) x" .
    have n: "\<not> (jsget r xk = x \<and> jsString E (jsget r sk) = k
                \<and> \<not> (k = ''__proto__'' \<and> xk \<noteq> ''__proto__''))"
      using False by blast
    have 2: "cell E (rows @ [r]) xk sk yk x k = cell E rows xk sk yk x k"
      unfolding cell_snoc if_not_P[OF n] by (rule refl)
    show ?thesis unfolding 1 2 by (rule ih4[OF xin])
  qed
  have d': "\<forall>x k. x \<in> (\<lambda>r. jsget r xk) ` set (rows @ [r]) \<longrightarrow>
       map_of (mapGet (wide (pivotLoop E xk sk yk (rows @ [r]))) x) k = cell E (rows @ [r]) xk sk yk x k"
    unfolding st using d by simp
  show ?case using a b c d' by blast
qed

lemma map_eq_two: "map f xs = [a, b] \<Longrightarrow> f (xs ! 0) = a \<and> f (xs ! 1) = b"
proof -
  assume m: "map f xs = [a, b]"
  then obtain x y where "xs = [x, y]" by (cases xs; cases "tl xs") auto
  then show ?thesis using m by simp
qed

section \<open>Results on ordering and pivoting\<close>

text \<open>
  C2 (as amended). The x values are ordered in three blocks: first the values whose
  month index is finite, ascending by index, values of one index in the order they were
  first seen; then the other values, ordered by \<^verbatim>\<open>localeCompare\<close> on their text (sorted
  by it when it is a total preorder); last \<^verbatim>\<open>undefined\<close>. The order has the same
  elements as the input. Whether the axis as a whole is time-like plays no role: there
  is no fallback to a lexical order.
\<close>

theorem ordering_policy:
  "orderXs E xs =
     sortBy (byIndex E) (filter (finiteIdx E) xs)
     @ sortBy (byLocale E) (filter (otherText E) xs)
     @ filter (\<lambda>a. a = JUndefined) xs
 \<and> sorted_wrt (\<lambda>a b. idxVal E a \<le> idxVal E b) (sortBy (byIndex E) (filter (finiteIdx E) xs))
 \<and> set (orderXs E xs) = set xs \<and> length (orderXs E xs) = length xs
 \<and> ((\<forall>a b. localeCompare E a b \<le> 0 \<or> localeCompare E b a \<le> 0)
      \<and> (\<forall>a b c. localeCompare E a b \<le> 0 \<and> localeCompare E b c \<le> 0 \<longrightarrow> localeCompare E a c \<le> 0)
    \<longrightarrow> sorted_wrt (\<lambda>a b. localeCompare E (jsString E a) (jsString E b) \<le> 0)
          (sortBy (byLocale E) (filter (otherText E) xs)))"
proof -
  have "sorted_wrt (\<lambda>a b. localeCompare E (jsString E a) (jsString E b) \<le> 0)
          (sortBy (byLocale E) (filter (otherText E) xs))"
    if t: "\<forall>a b. localeCompare E a b \<le> 0 \<or> localeCompare E b a \<le> 0"
      and tr: "\<forall>a b c. localeCompare E a b \<le> 0 \<and> localeCompare E b c \<le> 0 \<longrightarrow> localeCompare E a c \<le> 0"
  proof -
    have "sorted_wrt (\<lambda>a b. byLocale E a b \<le> 0) (sortBy (byLocale E) (filter (otherText E) xs))"
    proof (rule sorted_sortBy)
      show "byLocale E a b \<le> 0 \<or> byLocale E b a \<le> 0" for a b
        using t by (simp add: byLocale_def)
      show "byLocale E a b \<le> 0 \<Longrightarrow> byLocale E b c \<le> 0 \<Longrightarrow> byLocale E a c \<le> 0" for a b c
      proof -
        assume "byLocale E a b \<le> 0" and "byLocale E b c \<le> 0"
        then have "localeCompare E (jsString E a) (jsString E b) \<le> 0
                 \<and> localeCompare E (jsString E b) (jsString E c) \<le> 0"
          by (simp add: byLocale_def)
        then have "localeCompare E (jsString E a) (jsString E c) \<le> 0"
          by (rule tr[rule_format])
        then show ?thesis by (simp add: byLocale_def)
      qed
    qed
    then show ?thesis by (simp add: byLocale_def)
  qed
  then show ?thesis
    using orderXs_blocks[of E xs] sorted_byIndex[of E "filter (finiteIdx E) xs"]
      set_orderXs[of E xs] length_orderXs[of E xs]
    by blast
qed

theorem ordering_policy_witness:
  "orderXs plainEnv [JStr ''Pear'', JStr ''Feb 2024'', JUndefined, JStr ''Apple'', JStr ''Jan 2024'']
     = [JStr ''Jan 2024'', JStr ''Feb 2024'', JStr ''Apple'', JStr ''Pear'', JUndefined]
 \<and> sorted_wrt (\<lambda>a b. localeCompare plainEnv (jsString plainEnv a) (jsString plainEnv b) \<le> 0)
       [JStr ''Apple'', JStr ''Pear'']"
proof -
  let ?xs = "[JStr ''Pear'', JStr ''Feb 2024'', JUndefined, JStr ''Apple'', JStr ''Jan 2024'']"
  have lc: "localeCompare plainEnv = codeUnitCompare" by (simp add: plainEnv_def)
  have t: "\<forall>a b. localeCompare plainEnv a b \<le> 0 \<or> localeCompare plainEnv b a \<le> 0"
    unfolding lc using codeUnitCompare_total by blast
  have tr: "\<forall>a b c. localeCompare plainEnv a b \<le> 0 \<and> localeCompare plainEnv b c \<le> 0
              \<longrightarrow> localeCompare plainEnv a c \<le> 0"
    unfolding lc using codeUnitCompare_trans by blast
  have f: "sortBy (byIndex plainEnv) (filter (finiteIdx plainEnv) ?xs) = [JStr ''Jan 2024'', JStr ''Feb 2024'']"
    by code_simp
  have o: "sortBy (byLocale plainEnv) (filter (otherText plainEnv) ?xs) = [JStr ''Apple'', JStr ''Pear'']"
    by code_simp
  have u: "filter (\<lambda>a. a = JUndefined) ?xs = [JUndefined]" by simp
  have "orderXs plainEnv ?xs = [JStr ''Jan 2024'', JStr ''Feb 2024''] @ [JStr ''Apple'', JStr ''Pear''] @ [JUndefined]"
    using ordering_policy[of plainEnv ?xs] unfolding f o u by blast
  moreover have "sorted_wrt (\<lambda>a b. localeCompare plainEnv (jsString plainEnv a) (jsString plainEnv b) \<le> 0)
       [JStr ''Apple'', JStr ''Pear'']"
    using ordering_policy[of plainEnv ?xs] t tr unfolding o by blast
  ultimately show ?thesis by simp
qed

text \<open>The claim as first stated fails on the values \<^verbatim>\<open>Jan 2024\<close>, \<^verbatim>\<open>Apple\<close>, \<^verbatim>\<open>Zebra\<close>,
  \<^verbatim>\<open>Banana\<close>, \<^verbatim>\<open>Cat\<close>: the axis is not time-like (one value of five has a month
  index, and the name \<^verbatim>\<open>item\<close> is no time name), and \<^verbatim>\<open>Jan 2024\<close> still comes before
  \<^verbatim>\<open>Apple\<close>, in the sort and in the rows \<^verbatim>\<open>pivotData\<close> returns.\<close>

theorem ordering_fallback_counterexample:
  "orderXs plainEnv [JStr ''Jan 2024'', JStr ''Apple'', JStr ''Zebra'', JStr ''Banana'', JStr ''Cat'']
     = [JStr ''Jan 2024'', JStr ''Apple'', JStr ''Banana'', JStr ''Cat'', JStr ''Zebra'']
 \<and> \<not> isTimeLikeAxis plainEnv (Some ''item'')
       [JStr ''Jan 2024'', JStr ''Apple'', JStr ''Zebra'', JStr ''Banana'', JStr ''Cat'']
 \<and> map (\<lambda>w. jsget w ''item'')
       (data (pivotData plainEnv
          [[(''item'', JStr ''Jan 2024''), (''kind'', JStr ''a''), (''amount'', JNum (Fin 1))],
           [(''item'', JStr ''Apple''), (''kind'', JStr ''a''), (''amount'', JNum (Fin 2))],
           [(''item'', JStr ''Zebra''), (''kind'', JStr ''a''), (''amount'', JNum (Fin 3))],
           [(''item'', JStr ''Banana''), (''kind'', JStr ''a''), (''amount'', JNum (Fin 4))],
           [(''item'', JStr ''Cat''), (''kind'', JStr ''a''), (''amount'', JNum (Fin 5))]]
          ''item'' ''kind'' ''amount''))
     = [JStr ''Jan 2024'', JStr ''Apple'', JStr ''Banana'', JStr ''Cat'', JStr ''Zebra'']"
proof -
  have a: "orderXs plainEnv [JStr ''Jan 2024'', JStr ''Apple'', JStr ''Zebra'', JStr ''Banana'', JStr ''Cat'']
     = [JStr ''Jan 2024'', JStr ''Apple'', JStr ''Banana'', JStr ''Cat'', JStr ''Zebra'']"
    by code_simp
  have b: "\<not> isTimeLikeAxis plainEnv (Some ''item'')
       [JStr ''Jan 2024'', JStr ''Apple'', JStr ''Zebra'', JStr ''Banana'', JStr ''Cat'']"
    by code_simp
  have c: "map (\<lambda>w. jsget w ''item'')
       (data (pivotData plainEnv
          [[(''item'', JStr ''Jan 2024''), (''kind'', JStr ''a''), (''amount'', JNum (Fin 1))],
           [(''item'', JStr ''Apple''), (''kind'', JStr ''a''), (''amount'', JNum (Fin 2))],
           [(''item'', JStr ''Zebra''), (''kind'', JStr ''a''), (''amount'', JNum (Fin 3))],
           [(''item'', JStr ''Banana''), (''kind'', JStr ''a''), (''amount'', JNum (Fin 4))],
           [(''item'', JStr ''Cat''), (''kind'', JStr ''a''), (''amount'', JNum (Fin 5))]]
          ''item'' ''kind'' ''amount''))
     = [JStr ''Jan 2024'', JStr ''Apple'', JStr ''Banana'', JStr ''Cat'', JStr ''Zebra'']"
    by code_simp
  show ?thesis using a b c by (simp only: simp_thms)
qed

text \<open>
  C5. The rows of the reference example pivot to the two wide rows of the claim, the
  second without a field \<^verbatim>\<open>South\<close>, and to the series \<^verbatim>\<open>North\<close>, \<^verbatim>\<open>South\<close>. In general
  the series are the distinct series values in the order they are first seen; there is
  one wide row for each distinct x value, in the order of the x values; and the field
  \<open>k\<close> of the wide row of \<open>x\<close> is the metric of the last row with that x value and a
  series value of text \<open>k\<close>, with 0 for a metric that is not numeric, so that a
  wide row has a field only for the x key and for the series values seen with its x
  value.
\<close>

theorem pivot_correct:
  "pivotData E
     [[(''region'', JStr ''North''), (''month'', JStr ''Jan 2024''), (''revenue'', JNum (Fin 10))],
      [(''region'', JStr ''South''), (''month'', JStr ''Jan 2024''), (''revenue'', JNum (Fin 5))],
      [(''region'', JStr ''North''), (''month'', JStr ''Feb 2024''), (''revenue'', JNum (Fin 7))]]
     ''month'' ''region'' ''revenue''
   = \<lparr>data = [[(''month'', JStr ''Jan 2024''), (''North'', JNum (Fin 10)), (''South'', JNum (Fin 5))],
              [(''month'', JStr ''Feb 2024''), (''North'', JNum (Fin 7))]],
       series = [JStr ''North'', JStr ''South'']\<rparr>
 \<and> series (pivotData E rows xk sk yk) = firstSeen (map (\<lambda>r. jsget r sk) rows)
 \<and> map map_of (data (pivotData E rows xk sk yk)) = map (cell E rows xk sk yk) (pivotXs E rows xk)"
proof -
  have ex: "pivotData E
     [[(''region'', JStr ''North''), (''month'', JStr ''Jan 2024''), (''revenue'', JNum (Fin 10))],
      [(''region'', JStr ''South''), (''month'', JStr ''Jan 2024''), (''revenue'', JNum (Fin 5))],
      [(''region'', JStr ''North''), (''month'', JStr ''Feb 2024''), (''revenue'', JNum (Fin 7))]]
     ''month'' ''region'' ''revenue''
   = \<lparr>data = [[(''month'', JStr ''Jan 2024''), (''North'', JNum (Fin 10)), (''South'', JNum (Fin 5))],
              [(''month'', JStr ''Feb 2024''), (''North'', JNum (Fin 7))]],
       series = [JStr ''North'', JStr ''South'']\<rparr>"
    by code_simp
  let ?st = "pivotLoop E xk sk yk rows"
  have inv: "xSet ?st = firstSeen (map (\<lambda>r. jsget r xk) rows)"
    "seriesSet ?st = firstSeen (map (\<lambda>r. jsget r sk) rows)"
    "\<And>x k. x \<in> (\<lambda>r. jsget r xk) ` set rows \<Longrightarrow>
       map_of (mapGet (wide ?st) x) k = cell E rows xk sk yk x k"
    using pivotLoop_inv[of E xk sk yk rows] by blast+
  have s: "series (pivotData E rows xk sk yk) = firstSeen (map (\<lambda>r. jsget r sk) rows)"
    by (simp add: pivotData_def Let_def inv(2))
  have d: "data (pivotData E rows xk sk yk) = map (\<lambda>x. mapGet (wide ?st) x) (pivotXs E rows xk)"
    by (simp add: pivotData_def Let_def inv(1) pivotXs_def)
  have "map_of (mapGet (wide ?st) x) = cell E rows xk sk yk x" if "x \<in> set (pivotXs E rows xk)" for x
  proof
    fix k
    have "x \<in> (\<lambda>r. jsget r xk) ` set rows"
      using that by (simp add: pivotXs_def set_orderXs set_firstSeen)
    then show "map_of (mapGet (wide ?st) x) k = cell E rows xk sk yk x k" by (rule inv(3))
  qed
  then have "map map_of (data (pivotData E rows xk sk yk)) = map (cell E rows xk sk yk) (pivotXs E rows xk)"
    unfolding d by simp
  then show ?thesis using ex s by blast
qed

theorem pivot_correct_witness:
  "map_of (data (pivotData plainEnv
       [[(''x'', JStr ''a''), (''s'', JStr ''p''), (''v'', JNum (Fin 1))],
        [(''x'', JStr ''b''), (''s'', JStr ''q''), (''v'', JStr ''-'')],
        [(''x'', JStr ''a''), (''s'', JStr ''p''), (''v'', JNum (Fin 3))]]
       ''x'' ''s'' ''v'') ! 0) ''p'' = Some (JNum (Fin 3))
 \<and> map_of (data (pivotData plainEnv
       [[(''x'', JStr ''a''), (''s'', JStr ''p''), (''v'', JNum (Fin 1))],
        [(''x'', JStr ''b''), (''s'', JStr ''q''), (''v'', JStr ''-'')],
        [(''x'', JStr ''a''), (''s'', JStr ''p''), (''v'', JNum (Fin 3))]]
       ''x'' ''s'' ''v'') ! 1) ''q'' = Some (JNum (Fin 0))
 \<and> map_of (data (pivotData plainEnv
       [[(''x'', JStr ''a''), (''s'', JStr ''p''), (''v'', JNum (Fin 1))],
        [(''x'', JStr ''b''), (''s'', JStr ''q''), (''v'', JStr ''-'')],
        [(''x'', JStr ''a''), (''s'', JStr ''p''), (''v'', JNum (Fin 3))]]
       ''x'' ''s'' ''v'') ! 1) ''p'' = None"
proof -
  let ?rows = "[[(''x'', JStr ''a''), (''s'', JStr ''p''), (''v'', JNum (Fin 1))],
        [(''x'', JStr ''b''), (''s'', JStr ''q''), (''v'', JStr ''-'')],
        [(''x'', JStr ''a''), (''s'', JStr ''p''), (''v'', JNum (Fin 3))]]"
  have xs: "pivotXs plainEnv ?rows ''x'' = [JStr ''a'', JStr ''b'']" by code_simp
  have c: "cell plainEnv ?rows ''x'' ''s'' ''v'' (JStr ''a'') ''p'' = Some (JNum (Fin 3))"
    "cell plainEnv ?rows ''x'' ''s'' ''v'' (JStr ''b'') ''q'' = Some (JNum (Fin 0))"
    "cell plainEnv ?rows ''x'' ''s'' ''v'' (JStr ''b'') ''p'' = None"
    by code_simp+
  have m: "map map_of (data (pivotData plainEnv ?rows ''x'' ''s'' ''v''))
      = [cell plainEnv ?rows ''x'' ''s'' ''v'' (JStr ''a''), cell plainEnv ?rows ''x'' ''s'' ''v'' (JStr ''b'')]"
    using pivot_correct[of plainEnv ?rows "''x''" "''s''" "''v''"] unfolding xs by simp
  have "map_of (data (pivotData plainEnv ?rows ''x'' ''s'' ''v'') ! 0)
          = cell plainEnv ?rows ''x'' ''s'' ''v'' (JStr ''a'')
      \<and> map_of (data (pivotData plainEnv ?rows ''x'' ''s'' ''v'') ! 1)
          = cell plainEnv ?rows ''x'' ''s'' ''v'' (JStr ''b'')"
    using m by (rule map_eq_two)
  then show ?thesis by (simp only: c simp_thms)
qed


end
